theory Spec2Isabelle
  imports Main "HOL-Library.Word" "HOL-Library.Sublist"
begin

text \<open>
  A model of the token grammar, the resolution workflow, the debounced search and the
  caches of the med-notes application, and the properties of them that the specification
  states. Each function of the source is a function here under its own name; what the
  source does to the world (the database, the timers of the runtime, the caches) is a
  state that the function takes and returns, and the answer of the server to a call is
  an argument.
\<close>

section \<open>JavaScript values and strings\<close>

text \<open>
  A JavaScript string is a sequence of UTF-16 code units. The methods used by the code
  (\<^verbatim>\<open>startsWith\<close>, \<^verbatim>\<open>endsWith\<close>, \<^verbatim>\<open>slice\<close>, \<^verbatim>\<open>trim\<close>, \<^verbatim>\<open>split\<close> and a regular expression
  without the \<^verbatim>\<open>u\<close> flag) all work on code units. The two arrows U+2191 and U+2193 are one
  code unit each.
\<close>

type_synonym code_unit = "16 word"
type_synonym jsstring = "code_unit list"

text \<open>ASCII text as a JavaScript string, for readable literals.\<close>

definition js :: "string \<Rightarrow> jsstring" where
  "js s = map (\<lambda>c. of_nat (of_char c)) s"

definition plus_sign :: code_unit where "plus_sign = 0x2B"
definition minus_sign :: code_unit where "minus_sign = 0x2D"
definition up_arrow :: code_unit where "up_arrow = 0x2191"
definition down_arrow :: code_unit where "down_arrow = 0x2193"
definition less_sign :: code_unit where "less_sign = 0x3C"
definition equals_sign :: code_unit where "equals_sign = 0x3D"
definition greater_sign :: code_unit where "greater_sign = 0x3E"

text \<open>
  The primitive values that fields and arguments hold: \<^verbatim>\<open>undefined\<close>, \<^verbatim>\<open>null\<close>, a boolean,
  a number (the identifiers, limits and weights of this program are integers) or a string.
  \<open>truthy\<close> is JavaScript's conversion to a boolean, as used by \<^verbatim>\<open>if (x)\<close>, \<^verbatim>\<open>!x\<close> and
  \<^verbatim>\<open>x || y\<close>; \<open>to_string\<close> is the conversion to a string made by a template literal.
\<close>

datatype jsval = JUndefined | JNull | JBool bool | JNum int | JStr jsstring

fun truthy :: "jsval \<Rightarrow> bool" where
  "truthy JUndefined = False"
| "truthy JNull = False"
| "truthy (JBool b) = b"
| "truthy (JNum n) = (n \<noteq> 0)"
| "truthy (JStr s) = (s \<noteq> [])"

fun decimal :: "nat \<Rightarrow> jsstring" where
  "decimal n =
     (if n < 10 then [0x30 + of_nat n] else decimal (n div 10) @ [0x30 + of_nat (n mod 10)])"

declare decimal.simps [simp del]

fun to_string :: "jsval \<Rightarrow> jsstring" where
  "to_string JUndefined = js ''undefined''"
| "to_string JNull = js ''null''"
| "to_string (JBool b) = (if b then js ''true'' else js ''false'')"
| "to_string (JNum n) = (if n < 0 then minus_sign # decimal (nat (- n)) else decimal (nat n))"
| "to_string (JStr s) = s"

text \<open>
  An object whose shape the program does not fix (a row or a token sent by the server,
  the payload of a request) is a map from property names to values. Reading a property
  that is not there gives \<^verbatim>\<open>undefined\<close>; the spread \<^verbatim>\<open>{...a, k: v}\<close> is a map update and
  \<^verbatim>\<open>{...a, ...b}\<close> is \<open>a ++ b\<close>.
\<close>

type_synonym jsobject = "string \<rightharpoonup> jsval"

definition get_prop :: "jsobject \<Rightarrow> string \<Rightarrow> jsval" where
  "get_prop obj k = (case obj k of None \<Rightarrow> JUndefined | Some v \<Rightarrow> v)"

text \<open>
  An error object, and the pair \<^verbatim>\<open>{ data, error }\<close> that the Supabase client and every
  function of api.js return. A call of the client either rejects with an error (\<open>Inl\<close>) or
  resolves to such a pair (\<open>Inr\<close>).
\<close>

datatype js_error = JsError (message: jsstring)

datatype 'a response = Response (data: "'a option") (error: "js_error option")

type_synonym 'a rpc_outcome = "js_error + 'a response"

text \<open>
  The class \<^verbatim>\<open>\s\<close> of a regular expression and the characters removed by \<^verbatim>\<open>trim\<close> are the
  same set: white space and line terminators. The dot of a regular expression matches
  every code unit but the four line terminators; \<^verbatim>\<open>\d\<close> is an ASCII digit.
\<close>

definition is_whitespace :: "code_unit \<Rightarrow> bool" where
  "is_whitespace c \<longleftrightarrow>
     c = 0x09 \<or> c = 0x0A \<or> c = 0x0B \<or> c = 0x0C \<or> c = 0x0D \<or> c = 0x20 \<or> c = 0xA0 \<or>
     c = 0x1680 \<or> (0x2000 \<le> c \<and> c \<le> 0x200A) \<or> c = 0x2028 \<or> c = 0x2029 \<or>
     c = 0x202F \<or> c = 0x205F \<or> c = 0x3000 \<or> c = 0xFEFF"

definition is_line_terminator :: "code_unit \<Rightarrow> bool" where
  "is_line_terminator c \<longleftrightarrow> c = 0x0A \<or> c = 0x0D \<or> c = 0x2028 \<or> c = 0x2029"

definition is_digit :: "code_unit \<Rightarrow> bool" where
  "is_digit c \<longleftrightarrow> 0x30 \<le> c \<and> c \<le> 0x39"

definition trim :: "jsstring \<Rightarrow> jsstring" where
  "trim s = rev (dropWhile is_whitespace (rev (dropWhile is_whitespace s)))"

text \<open>
  \<^verbatim>\<open>s.split(/\s+/)\<close>: the pieces between the maximal runs of white space. A run at the
  start or at the end of the string leaves an empty piece there, and the empty string
  splits into one empty piece.
\<close>

function split_whitespace :: "jsstring \<Rightarrow> jsstring list" where
  "split_whitespace s =
     (case dropWhile (\<lambda>c. \<not> is_whitespace c) s of
        [] \<Rightarrow> [s]
      | w # rest \<Rightarrow>
          takeWhile (\<lambda>c. \<not> is_whitespace c) s # split_whitespace (dropWhile is_whitespace rest))"
  by pat_completeness auto
termination
proof (relation "measure length")
  show "wf (measure length)" by simp
next
  fix s :: jsstring and w rest
  assume d: "dropWhile (\<lambda>c. \<not> is_whitespace c) s = w # rest"
  have "length (dropWhile is_whitespace rest) \<le> length rest"
    by (rule length_dropWhile_le)
  also have "length rest < length (dropWhile (\<lambda>c. \<not> is_whitespace c) s)"
    using d by simp
  also have "\<dots> \<le> length s"
    by (rule length_dropWhile_le)
  finally show "(dropWhile is_whitespace rest, s) \<in> measure length" by simp
qed

declare split_whitespace.simps [simp del]

section \<open>The tokenizer: \<^verbatim>\<open>parseTokensClient\<close> (Backend/api.js)\<close>

record token =
  original :: jsstring
  cleanToken :: jsstring
  isPresent :: bool
  valueModifier :: jsval
  numericValue :: jsval

text \<open>
  The regular expression \<^verbatim>\<open>/^(.+?)([<>]=?)(\d+)$/\<close>, by the backtracking order of the
  matcher. \<open>match_operator_digits\<close> is the part \<^verbatim>\<open>([<>]=?)(\d+)$\<close> tried at one position:
  the optional \<^verbatim>\<open>=\<close> is greedy, so it is taken first when it is there, and the digits
  must then run to the end of the string; without it the digits start right after the
  operator. \<open>lazy_group\<close> is the lazy first group: it holds \<open>g\<close>, tries the rest of the
  pattern, and only when that fails takes one more character, which the dot has to
  accept. The anchor \<^verbatim>\<open>^\<close> leaves the start of the string as the only place to try.
\<close>

definition match_operator_digits :: "jsstring \<Rightarrow> (jsstring \<times> jsstring) option" where
  "match_operator_digits s =
     (case s of
        [] \<Rightarrow> None
      | c # r \<Rightarrow>
          if c \<noteq> less_sign \<and> c \<noteq> greater_sign then None
          else (case r of
                  [] \<Rightarrow> None
                | e # ds \<Rightarrow>
                    if e = equals_sign \<and> ds \<noteq> [] \<and> list_all is_digit ds then Some ([c, e], ds)
                    else if list_all is_digit r then Some ([c], r)
                    else None))"

fun lazy_group :: "jsstring \<Rightarrow> jsstring \<Rightarrow> (jsstring \<times> jsstring \<times> jsstring) option" where
  "lazy_group g [] = None"
| "lazy_group g (c # r) =
     (case match_operator_digits (c # r) of
        Some (opr, ds) \<Rightarrow> Some (g, opr, ds)
      | None \<Rightarrow> if is_line_terminator c then None else lazy_group (g @ [c]) r)"

definition comparisonMatch :: "jsstring \<Rightarrow> (jsstring \<times> jsstring \<times> jsstring) option" where
  "comparisonMatch s =
     (case s of
        [] \<Rightarrow> None
      | c # r \<Rightarrow> if is_line_terminator c then None else lazy_group [c] r)"

text \<open>
  The body of the loop, in the three steps of the source. \<open>strip_sign\<close> is the check for
  a \<^verbatim>\<open>+\<close> or \<^verbatim>\<open>-\<close> prefix and gives \<open>isPresent\<close> and the remainder; \<open>strip_direction\<close> is the
  check for an arrow at the end and gives \<open>valueModifier\<close> and the shortened text. The
  comparison match is then tried on that text in every case, and where it matches it
  overwrites \<open>cleanToken\<close> and \<open>valueModifier\<close> and sets \<open>numericValue\<close> to the third
  group, which is a string.
\<close>

definition strip_sign :: "jsstring \<Rightarrow> bool \<times> jsstring" where
  "strip_sign tok =
     (case tok of
        [] \<Rightarrow> (True, tok)
      | c # r \<Rightarrow>
          if c = plus_sign then (True, r)
          else if c = minus_sign then (False, r)
          else (True, tok))"

definition strip_direction :: "jsstring \<Rightarrow> jsval \<times> jsstring" where
  "strip_direction s =
     (if s \<noteq> [] \<and> last s = up_arrow then (JStr [up_arrow], butlast s)
      else if s \<noteq> [] \<and> last s = down_arrow then (JStr [down_arrow], butlast s)
      else (JNull, s))"

definition parse_token :: "jsstring \<Rightarrow> token" where
  "parse_token tok =
     (let (present, s1) = strip_sign tok;
          (modifier, s2) = strip_direction s1
      in case comparisonMatch s2 of
           Some (word, opr, ds) \<Rightarrow>
             \<lparr>original = tok, cleanToken = word, isPresent = present,
              valueModifier = JStr opr, numericValue = JStr ds\<rparr>
         | None \<Rightarrow>
             \<lparr>original = tok, cleanToken = s2, isPresent = present,
              valueModifier = modifier, numericValue = JNull\<rparr>)"

fun parse_loop :: "jsstring list \<Rightarrow> token list" where
  "parse_loop [] = []"
| "parse_loop (tok # rest) =
     (if tok = [] then parse_loop rest else parse_token tok # parse_loop rest)"

definition parseTokensClient :: "jsstring \<Rightarrow> token list" where
  "parseTokensClient inputString = parse_loop (split_whitespace (trim inputString))"


section \<open>The calls of api.js that the workflow uses\<close>

text \<open>
  Every function of api.js has the same frame: await the client, throw the error of the
  answer if there is one, return \<^verbatim>\<open>{ data, error: null }\<close>, and turn anything thrown into
  \<^verbatim>\<open>{ data: null, error }\<close>. So none of them rejects.
\<close>

definition parseMedicalTokens :: "jsobject list rpc_outcome \<Rightarrow> jsobject list response" where
  "parseMedicalTokens rpc =
     (case rpc of
        Inl e \<Rightarrow> Response None (Some e)
      | Inr r \<Rightarrow>
          (case error r of
             Some e \<Rightarrow> Response None (Some e)
           | None \<Rightarrow> Response (data r) None))"

text \<open>
  The database behind \<^verbatim>\<open>addFeatureToDisease\<close>: its answer to an upsert may depend on the
  upserts made before. The list of payloads sent so far is the state that the workflow
  changes outside itself.
\<close>

type_synonym database = "jsobject list \<Rightarrow> jsobject \<Rightarrow> jsobject rpc_outcome"

definition upsert_payload :: "jsval \<Rightarrow> jsval \<Rightarrow> jsobject \<Rightarrow> jsobject" where
  "upsert_payload diseaseId featureId featureDetails =
     [''disease_id'' \<mapsto> diseaseId, ''feature_id'' \<mapsto> featureId] ++ featureDetails"

definition addFeatureToDisease ::
  "database \<Rightarrow> jsobject list \<Rightarrow> jsval \<Rightarrow> jsval \<Rightarrow> jsobject \<Rightarrow> jsobject response \<times> jsobject list" where
  "addFeatureToDisease db sent diseaseId featureId featureDetails =
     (let payload = upsert_payload diseaseId featureId featureDetails
      in (case db sent payload of
            Inl e \<Rightarrow> Response None (Some e)
          | Inr r \<Rightarrow>
              (case error r of
                 Some e \<Rightarrow> Response None (Some e)
               | None \<Rightarrow> Response (data r) None),
          sent @ [payload]))"

section \<open>The resolution workflow: \<^verbatim>\<open>useTokenInputWorkflow\<close> (hooks/useApi.js)\<close>

record hook_state =
  processing :: bool
  results :: "jsobject list"
  error_state :: "js_error option"

datatype settlement = Fulfilled | Rejected js_error

definition feature_details :: "jsobject \<Rightarrow> jsobject" where
  "feature_details token =
     [''value_text'' \<mapsto>
        (if truthy (get_prop token ''value_modifier'') then get_prop token ''value_modifier'' else JNull),
      ''is_present'' \<mapsto> get_prop token ''is_present'',
      ''typicality'' \<mapsto> JStr (js ''common''),
      ''weight'' \<mapsto> JNum 1]"

text \<open>
  What is pushed for a token whose feature exists, given the answer of
  \<^verbatim>\<open>addFeatureToDisease\<close>, and what is pushed for a token without a feature.
\<close>

definition attempted :: "jsobject response \<Rightarrow> jsobject \<Rightarrow> jsobject" where
  "attempted answer token =
     token(''added'' \<mapsto> JBool (error answer = None),
           ''addError'' \<mapsto> (case error answer of None \<Rightarrow> JUndefined | Some e \<Rightarrow> JStr (message e)))"

definition manual :: "jsobject \<Rightarrow> jsobject" where
  "manual token = token(''added'' \<mapsto> JBool False, ''needsManualCreation'' \<mapsto> JBool True)"

text \<open>
  The loop over the parsed tokens. Its state is \<^verbatim>\<open>processedTokens\<close> and the payloads sent
  to the database so far.
\<close>

fun process_tokens ::
  "database \<Rightarrow> jsval \<Rightarrow> jsobject list \<Rightarrow> jsobject list \<times> jsobject list \<Rightarrow>
     jsobject list \<times> jsobject list" where
  "process_tokens db diseaseId [] (processedTokens, sent) = (processedTokens, sent)"
| "process_tokens db diseaseId (token # rest) (processedTokens, sent) =
     (if truthy (get_prop token ''canonical_feature_id'') then
        (let (answer, sent') =
               addFeatureToDisease db sent diseaseId (get_prop token ''canonical_feature_id'')
                 (feature_details token)
         in process_tokens db diseaseId rest (processedTokens @ [attempted answer token], sent'))
      else process_tokens db diseaseId rest (processedTokens @ [manual token], sent))"

text \<open>
  The body of the \<^verbatim>\<open>try\<close> block: \<open>Inl\<close> is what it throws, which the \<^verbatim>\<open>catch\<close> receives.
  \<open>parse_rpc\<close> is the answer of the server to \<^verbatim>\<open>parse_medical_tokens\<close> for this input.
\<close>

definition try_block ::
  "database \<Rightarrow> jsobject list rpc_outcome \<Rightarrow> jsval \<Rightarrow> jsobject list \<Rightarrow>
     (js_error + jsobject list) \<times> jsobject list" where
  "try_block db parse_rpc diseaseId sent =
     (let parsed = parseMedicalTokens parse_rpc
      in case error parsed of
           Some parseError \<Rightarrow> (Inl parseError, sent)
         | None \<Rightarrow>
             (let (processedTokens, sent') =
                    process_tokens db diseaseId (case data parsed of None \<Rightarrow> [] | Some ts \<Rightarrow> ts)
                      ([], sent)
              in (Inr processedTokens, sent')))"

text \<open>
  \<^verbatim>\<open>processTokenInput\<close>. The guard comes before the \<^verbatim>\<open>try\<close>, so \<^verbatim>\<open>tokenString.trim()\<close>
  on a value that is not a string is the one exception that leaves the function. The
  result is how the promise settles, the state of the hook and the payloads sent.
\<close>

definition processTokenInput ::
  "database \<Rightarrow> jsobject list rpc_outcome \<Rightarrow> jsval \<Rightarrow> jsval \<Rightarrow> hook_state \<times> jsobject list \<Rightarrow>
     settlement \<times> hook_state \<times> jsobject list" where
  "processTokenInput db parse_rpc diseaseId tokenString start =
     (let (st, sent) = start
      in case tokenString of
           JStr s \<Rightarrow>
             if trim s = [] \<or> \<not> truthy diseaseId then (Fulfilled, st, sent)
             else
               (let st1 = st\<lparr>processing := True, error_state := None\<rparr>
                in case try_block db parse_rpc diseaseId sent of
                     (Inr processedTokens, sent') \<Rightarrow>
                       (Fulfilled, st1\<lparr>results := processedTokens, processing := False\<rparr>, sent')
                   | (Inl err, sent') \<Rightarrow>
                       (Fulfilled,
                        st1\<lparr>error_state := Some err, results := [], processing := False\<rparr>, sent'))
         | _ \<Rightarrow> (Rejected (JsError (js ''TypeError'')), st, sent))"

section \<open>Debounced search: \<^verbatim>\<open>createDebouncedSearch\<close> (Backend/api.js)\<close>

text \<open>
  The closure holds one variable, \<^verbatim>\<open>timeoutId\<close>. The timers of the JavaScript runtime are
  part of the state: \<^verbatim>\<open>setTimeout\<close> adds a timer under a fresh identifier,
  \<^verbatim>\<open>clearTimeout\<close> removes the timer with the given identifier, and a timer runs its
  callback once the clock has reached its due time. Every call returns a new promise;
  promises are numbered in the order of the calls. The callback of a timer calls
  \<^verbatim>\<open>searchFunction\<close> with the arguments of its call and settles the promise of its call
  with the outcome (the value, or the error thrown). \<open>searched\<close> lists the calls that
  reached \<^verbatim>\<open>searchFunction\<close> and \<open>settled\<close> the promises that were settled.
\<close>

record 'a timer =
  timer_id :: nat
  due :: nat
  call_args :: 'a
  promise :: nat

record ('a, 'r) debounced =
  now :: nat
  next_timer_id :: nat
  timers :: "'a timer list"
  timeoutId :: "nat option"
  promises :: nat
  searched :: "(nat \<times> 'a) list"
  settled :: "(nat \<times> 'r) list"

definition createDebouncedSearch :: "nat \<Rightarrow> ('a, 'r) debounced" where
  "createDebouncedSearch t0 =
     \<lparr>now = t0, next_timer_id = 0, timers = [], timeoutId = None, promises = 0,
      searched = [], settled = []\<rparr>"

definition clearTimeout :: "nat option \<Rightarrow> 'a timer list \<Rightarrow> 'a timer list" where
  "clearTimeout tid ts =
     (case tid of None \<Rightarrow> ts | Some i \<Rightarrow> filter (\<lambda>t. timer_id t \<noteq> i) ts)"

text \<open>One call of the debounced function; the result is the promise and the new state.\<close>

definition debounced_call ::
  "nat \<Rightarrow> 'a \<Rightarrow> ('a, 'r) debounced \<Rightarrow> nat \<times> ('a, 'r) debounced" where
  "debounced_call delay args d =
     (let cleared = clearTimeout (timeoutId d) (timers d);
          new_timer = \<lparr>timer_id = next_timer_id d, due = now d + delay, call_args = args,
                       promise = promises d\<rparr>
      in (promises d,
          d\<lparr>timers := cleared @ [new_timer],
            next_timer_id := Suc (next_timer_id d),
            timeoutId := Some (next_timer_id d),
            promises := Suc (promises d)\<rparr>))"

definition fire :: "('a \<Rightarrow> 'r) \<Rightarrow> 'a timer \<Rightarrow> ('a, 'r) debounced \<Rightarrow> ('a, 'r) debounced" where
  "fire searchFunction t d =
     d\<lparr>searched := searched d @ [(promise t, call_args t)],
       settled := settled d @ [(promise t, searchFunction (call_args t))]\<rparr>"

text \<open>
  Time passes: the timers that are due by then run, in the order in which they were set
  (all timers of one debounced function have the same delay, so this is the order of
  their due times).
\<close>

definition wait :: "('a \<Rightarrow> 'r) \<Rightarrow> nat \<Rightarrow> ('a, 'r) debounced \<Rightarrow> ('a, 'r) debounced" where
  "wait searchFunction dt d =
     (let t' = now d + dt;
          ready = filter (\<lambda>t. due t \<le> t') (timers d);
          pending = filter (\<lambda>t. \<not> due t \<le> t') (timers d)
      in (fold (fire searchFunction) ready d)\<lparr>timers := pending, now := t'\<rparr>)"

datatype 'a event = Call 'a | Wait nat

fun step :: "('a \<Rightarrow> 'r) \<Rightarrow> nat \<Rightarrow> 'a event \<Rightarrow> ('a, 'r) debounced \<Rightarrow> ('a, 'r) debounced" where
  "step searchFunction delay (Call args) d = snd (debounced_call delay args d)"
| "step searchFunction delay (Wait dt) d = wait searchFunction dt d"

definition run ::
  "('a \<Rightarrow> 'r) \<Rightarrow> nat \<Rightarrow> 'a event list \<Rightarrow> ('a, 'r) debounced \<Rightarrow> ('a, 'r) debounced" where
  "run searchFunction delay es d = fold (step searchFunction delay) es d"

fun elapsed :: "'a event list \<Rightarrow> nat" where
  "elapsed [] = 0"
| "elapsed (Call args # es) = elapsed es"
| "elapsed (Wait dt # es) = dt + elapsed es"

section \<open>The caches: \<^verbatim>\<open>BackendService\<close> (Backend/backendConfig.js) and \<^verbatim>\<open>quickPeekCache\<close> (Backend/api.js)\<close>

definition CACHE_TTL_MS :: nat where
  "CACHE_TTL_MS = 5 * 60 * 1000"

definition MAX_SEARCH_RESULTS :: int where
  "MAX_SEARCH_RESULTS = 10"

text \<open>
  The data of a cached result: the rows of a search, or the first row of the statistics.
  A row is an object, so it is truthy. The state is the clock of the runtime, the pending
  timers that \<^verbatim>\<open>searchFeatures\<close> has set (due time and key to delete), the map
  \<^verbatim>\<open>this.cache\<close> of the service and the map \<^verbatim>\<open>quickPeekCache\<close> of api.js.
\<close>

datatype 'd payload = Rows "'d list" | Row 'd

type_synonym 'd result = "'d payload response"

record 'd runtime =
  clock :: nat
  ttl_timers :: "(nat \<times> jsstring) list"
  cache :: "jsstring \<rightharpoonup> 'd result"
  quickPeekCache :: "jsval \<rightharpoonup> 'd result"

definition new_runtime :: "nat \<Rightarrow> 'd runtime" where
  "new_runtime t0 = \<lparr>clock = t0, ttl_timers = [], cache = Map.empty, quickPeekCache = Map.empty\<rparr>"

definition search_key :: "jsval \<Rightarrow> jsval \<Rightarrow> jsstring" where
  "search_key query limit = js ''search:'' @ to_string query @ js '':'' @ to_string limit"

definition stats_key :: "jsval \<Rightarrow> jsstring" where
  "stats_key diseaseId = js ''stats:'' @ to_string diseaseId"

text \<open>\<^verbatim>\<open>data?.[0] || null\<close>\<close>

definition first_row :: "'d list option \<Rightarrow> 'd payload option" where
  "first_row rows = (case rows of None \<Rightarrow> None | Some [] \<Rightarrow> None | Some (x # xs) \<Rightarrow> Some (Row x))"

definition BackendService_searchFeatures ::
  "'d list rpc_outcome \<Rightarrow> jsval \<Rightarrow> jsval \<Rightarrow> 'd runtime \<Rightarrow> 'd result \<times> 'd runtime" where
  "BackendService_searchFeatures rpc query limit0 rt =
     (let limit = (if limit0 = JUndefined then JNum MAX_SEARCH_RESULTS else limit0);
          cacheKey = search_key query limit
      in case cache rt cacheKey of
           Some hit \<Rightarrow> (hit, rt)
         | None \<Rightarrow>
             (case rpc of
                Inl e \<Rightarrow> (Response None (Some e), rt)
              | Inr r \<Rightarrow>
                  (case error r of
                     Some e \<Rightarrow> (Response None (Some e), rt)
                   | None \<Rightarrow>
                       (let result = Response (map_option Rows (data r)) None
                        in (result,
                            rt\<lparr>cache := (cache rt)(cacheKey \<mapsto> result),
                               ttl_timers := ttl_timers rt @ [(clock rt + CACHE_TTL_MS, cacheKey)]\<rparr>)))))"

definition BackendService_getDiseaseStats ::
  "'d list rpc_outcome \<Rightarrow> jsval \<Rightarrow> 'd runtime \<Rightarrow> 'd result \<times> 'd runtime" where
  "BackendService_getDiseaseStats rpc diseaseId rt =
     (let cacheKey = stats_key diseaseId
      in case cache rt cacheKey of
           Some hit \<Rightarrow> (hit, rt)
         | None \<Rightarrow>
             (case rpc of
                Inl e \<Rightarrow> (Response None (Some e), rt)
              | Inr r \<Rightarrow>
                  (case error r of
                     Some e \<Rightarrow> (Response None (Some e), rt)
                   | None \<Rightarrow>
                       (let result = Response (first_row (data r)) None
                        in (result, rt\<lparr>cache := (cache rt)(cacheKey \<mapsto> result)\<rparr>)))))"

definition clearCache :: "'d runtime \<Rightarrow> 'd runtime" where
  "clearCache rt = rt\<lparr>cache := Map.empty\<rparr>"

definition clearCacheByPrefix :: "jsstring \<Rightarrow> 'd runtime \<Rightarrow> 'd runtime" where
  "clearCacheByPrefix p rt = rt\<lparr>cache := (\<lambda>key. if prefix p key then None else cache rt key)\<rparr>"

text \<open>\<^verbatim>\<open>getDiseaseStats\<close> and \<^verbatim>\<open>getCachedDiseaseStats\<close> of api.js.\<close>

definition getDiseaseStats :: "'d list rpc_outcome \<Rightarrow> 'd result" where
  "getDiseaseStats rpc =
     (case rpc of
        Inl e \<Rightarrow> Response None (Some e)
      | Inr r \<Rightarrow>
          (case error r of
             Some e \<Rightarrow> Response None (Some e)
           | None \<Rightarrow> Response (first_row (data r)) None))"

definition getCachedDiseaseStats ::
  "'d list rpc_outcome \<Rightarrow> jsval \<Rightarrow> 'd runtime \<Rightarrow> 'd result \<times> 'd runtime" where
  "getCachedDiseaseStats rpc diseaseId rt =
     (case quickPeekCache rt diseaseId of
        Some hit \<Rightarrow> (hit, rt)
      | None \<Rightarrow>
          (let result = getDiseaseStats rpc
           in if data result \<noteq> None
              then (result, rt\<lparr>quickPeekCache := (quickPeekCache rt)(diseaseId \<mapsto> result)\<rparr>)
              else (result, rt)))"

definition clearQuickPeekCache :: "'d runtime \<Rightarrow> 'd runtime" where
  "clearQuickPeekCache rt = rt\<lparr>quickPeekCache := Map.empty\<rparr>"

text \<open>
  Time passes: every timer that is due by then deletes its key from \<^verbatim>\<open>this.cache\<close>.
  Nothing else in either module reads the clock.
\<close>

definition pass_time :: "nat \<Rightarrow> 'd runtime \<Rightarrow> 'd runtime" where
  "pass_time dt rt =
     (let t' = clock rt + dt;
          ready = filter (\<lambda>tm. fst tm \<le> t') (ttl_timers rt);
          pending = filter (\<lambda>tm. \<not> fst tm \<le> t') (ttl_timers rt)
      in rt\<lparr>clock := t', ttl_timers := pending,
            cache := fold (\<lambda>tm c. c(snd tm := None)) ready (cache rt)\<rparr>)"

datatype 'd cache_event =
    SearchFeatures "'d list rpc_outcome" jsval jsval
  | GetDiseaseStats "'d list rpc_outcome" jsval
  | GetCachedDiseaseStats "'d list rpc_outcome" jsval
  | ClearCache
  | ClearCacheByPrefix jsstring
  | ClearQuickPeekCache
  | PassTime nat

fun cache_step :: "'d cache_event \<Rightarrow> 'd runtime \<Rightarrow> 'd runtime" where
  "cache_step (SearchFeatures rpc query limit) rt = snd (BackendService_searchFeatures rpc query limit rt)"
| "cache_step (GetDiseaseStats rpc diseaseId) rt = snd (BackendService_getDiseaseStats rpc diseaseId rt)"
| "cache_step (GetCachedDiseaseStats rpc diseaseId) rt = snd (getCachedDiseaseStats rpc diseaseId rt)"
| "cache_step ClearCache rt = clearCache rt"
| "cache_step (ClearCacheByPrefix p) rt = clearCacheByPrefix p rt"
| "cache_step ClearQuickPeekCache rt = clearQuickPeekCache rt"
| "cache_step (PassTime dt) rt = pass_time dt rt"

definition cache_run :: "'d cache_event list \<Rightarrow> 'd runtime \<Rightarrow> 'd runtime" where
  "cache_run es rt = fold cache_step es rt"

definition rpc_failed :: "'a rpc_outcome \<Rightarrow> bool" where
  "rpc_failed rpc = (case rpc of Inl e \<Rightarrow> True | Inr r \<Rightarrow> error r \<noteq> None)"

definition is_search_key :: "jsstring \<Rightarrow> bool" where
  "is_search_key key = prefix (js ''search:'') key"

section \<open>Notions used to state the properties\<close>

subsection \<open>Tokens\<close>

definition bare_fragments :: "jsstring list" where
  "bare_fragments =
     [[plus_sign], [minus_sign], [up_arrow], [down_arrow],
      [plus_sign, up_arrow], [plus_sign, down_arrow],
      [minus_sign, up_arrow], [minus_sign, down_arrow]]"

definition starts_with_sign :: "jsstring \<Rightarrow> bool" where
  "starts_with_sign s \<longleftrightarrow> s \<noteq> [] \<and> (hd s = plus_sign \<or> hd s = minus_sign)"

definition ends_with_arrow :: "jsstring \<Rightarrow> bool" where
  "ends_with_arrow s \<longleftrightarrow> s \<noteq> [] \<and> (last s = up_arrow \<or> last s = down_arrow)"

definition comparison_operators :: "jsstring list" where
  "comparison_operators =
     [[less_sign], [greater_sign], [less_sign, equals_sign], [greater_sign, equals_sign]]"

definition is_plain :: "token \<Rightarrow> bool" where
  "is_plain t \<longleftrightarrow> valueModifier t = JNull \<and> numericValue t = JNull"

definition is_directional :: "token \<Rightarrow> bool" where
  "is_directional t \<longleftrightarrow>
     (valueModifier t = JStr [up_arrow] \<or> valueModifier t = JStr [down_arrow]) \<and>
     numericValue t = JNull"

definition is_comparison :: "token \<Rightarrow> bool" where
  "is_comparison t \<longleftrightarrow>
     (case valueModifier t of JStr opr \<Rightarrow> opr \<in> set comparison_operators | _ \<Rightarrow> False) \<and>
     (case numericValue t of JStr ds \<Rightarrow> ds \<noteq> [] \<and> list_all is_digit ds | _ \<Rightarrow> False)"

definition retokenizes_to_itself :: "jsstring \<Rightarrow> bool" where
  "retokenizes_to_itself c =
     (case parseTokensClient c of
        [t] \<Rightarrow> cleanToken t = c \<and> valueModifier t = JNull \<and> numericValue t = JNull
      | _ \<Rightarrow> False)"

definition exactly_one_form :: "token \<Rightarrow> bool" where
  "exactly_one_form t \<longleftrightarrow>
     length (filter (\<lambda>b. b) [is_plain t, is_directional t, is_comparison t]) = 1"

subsection \<open>Workflow\<close>

definition has_feature :: "jsobject \<Rightarrow> bool" where
  "has_feature token \<longleftrightarrow> truthy (get_prop token ''canonical_feature_id'')"

definition payload_of :: "jsval \<Rightarrow> jsobject \<Rightarrow> jsobject" where
  "payload_of diseaseId token =
     upsert_payload diseaseId (get_prop token ''canonical_feature_id'') (feature_details token)"

text \<open>The payloads sent before the token at position i is reached, and the answer to its own.\<close>

definition sent_before :: "jsval \<Rightarrow> jsobject list \<Rightarrow> jsobject list \<Rightarrow> nat \<Rightarrow> jsobject list" where
  "sent_before diseaseId sent ts i = sent @ map (payload_of diseaseId) (filter has_feature (take i ts))"

definition answer_at :: "database \<Rightarrow> jsval \<Rightarrow> jsobject list \<Rightarrow> jsobject list \<Rightarrow> nat \<Rightarrow> jsobject response" where
  "answer_at db diseaseId sent ts i =
     fst (addFeatureToDisease db (sent_before diseaseId sent ts i) diseaseId
            (get_prop (ts ! i) ''canonical_feature_id'') (feature_details (ts ! i)))"

definition own_property :: "string \<Rightarrow> bool" where
  "own_property k \<longleftrightarrow> k \<noteq> ''added'' \<and> k \<noteq> ''addError'' \<and> k \<noteq> ''needsManualCreation''"

definition st0 :: hook_state where
  "st0 = \<lparr>processing = False, results = [], error_state = None\<rparr>"

text \<open>A database that refuses the feature 1 and accepts every other upsert.\<close>

definition db_refusing_1 :: database where
  "db_refusing_1 sent payload =
     (if payload ''feature_id'' = Some (JNum 1)
      then Inr (Response None (Some (JsError (js ''denied''))))
      else Inr (Response (Some payload) None))"

definition three_tokens :: "jsobject list" where
  "three_tokens =
     [[''original_token'' \<mapsto> JStr (js ''+Dyspnea''), ''canonical_feature_id'' \<mapsto> JNum 1,
       ''is_present'' \<mapsto> JBool True],
      [''original_token'' \<mapsto> JStr (js ''-Murmur''), ''is_present'' \<mapsto> JBool False],
      [''original_token'' \<mapsto> JStr (js ''MCV<80''), ''canonical_feature_id'' \<mapsto> JNum 3,
       ''is_present'' \<mapsto> JBool True, ''value_modifier'' \<mapsto> JStr (js ''<''),
       ''numeric_value'' \<mapsto> JNum 80]]"

definition db_accepting :: database where
  "db_accepting sent payload = Inr (Response (Some payload) None)"

definition token_MCV :: jsobject where
  "token_MCV =
     [''original_token'' \<mapsto> JStr (js ''MCV<80''), ''canonical_feature_id'' \<mapsto> JNum 3,
      ''canonical_name'' \<mapsto> JStr (js ''MCV''), ''is_present'' \<mapsto> JBool True,
      ''value_modifier'' \<mapsto> JStr (js ''<''), ''numeric_value'' \<mapsto> JNum 80]"

definition parse_unavailable :: "jsobject list rpc_outcome" where
  "parse_unavailable = Inl (JsError (js ''unavailable''))"

subsection \<open>Debounced search\<close>

definition wf_debounced :: "('a, 'r) debounced \<Rightarrow> bool" where
  "wf_debounced d \<longleftrightarrow>
     list_all (\<lambda>t. promise t < promises d) (timers d) \<and>
     list_all (\<lambda>x. fst x < promises d) (searched d) \<and>
     list_all (\<lambda>x. fst x < promises d) (settled d)"

text \<open>
  The promise \<open>p\<close> is waiting: it has been returned, no search was made for it and it is
  not settled, and a timer for it, if there is one, is due at \<open>T\<close> and is the one that
  \<^verbatim>\<open>timeoutId\<close> names.
\<close>

definition waiting :: "nat \<Rightarrow> nat \<Rightarrow> ('a, 'r) debounced \<Rightarrow> bool" where
  "waiting T p d \<longleftrightarrow>
     p < promises d \<and> p \<notin> fst ` set (searched d) \<and> p \<notin> fst ` set (settled d) \<and>
     list_all (\<lambda>t. promise t \<noteq> p \<or> due t = T \<and> timeoutId d = Some (timer_id t)) (timers d)"

text \<open>The promise \<open>p\<close> is dropped: as before, and no timer is left for it.\<close>

definition dropped :: "nat \<Rightarrow> ('a, 'r) debounced \<Rightarrow> bool" where
  "dropped p d \<longleftrightarrow>
     p < promises d \<and> p \<notin> fst ` set (searched d) \<and> p \<notin> fst ` set (settled d) \<and>
     list_all (\<lambda>t. promise t \<noteq> p) (timers d)"

definition search_stub :: "jsstring \<Rightarrow> jsstring list" where
  "search_stub query = [query]"

text \<open>Two keystrokes 100 ms apart with a delay of 300 ms, and what is left pending after them.\<close>

definition after_first_call :: "(jsstring, jsstring list) debounced" where
  "after_first_call = snd (debounced_call 300 (js ''dy'') (createDebouncedSearch 0))"

definition after_second_call :: "(jsstring, jsstring list) debounced" where
  "after_second_call =
     snd (debounced_call 300 (js ''dys'') (run search_stub 300 [Wait 100] after_first_call))"

subsection \<open>Caches\<close>

text \<open>
  Every search entry in the cache has a pending timer that is due within the time to
  live, and the timers delete search entries only.
\<close>

definition timers_cover :: "'d runtime \<Rightarrow> bool" where
  "timers_cover rt \<longleftrightarrow>
     (\<forall>key. is_search_key key \<and> cache rt key \<noteq> None \<longrightarrow>
        (\<exists>tm \<in> set (ttl_timers rt). snd tm = key \<and> fst tm \<le> clock rt + CACHE_TTL_MS)) \<and>
     list_all (\<lambda>tm. is_search_key (snd tm)) (ttl_timers rt)"

definition no_error_cached :: "'d runtime \<Rightarrow> bool" where
  "no_error_cached rt \<longleftrightarrow>
     (\<forall>key r. cache rt key = Some r \<longrightarrow> error r = None) \<and>
     (\<forall>k r. quickPeekCache rt k = Some r \<longrightarrow> error r = None)"

text \<open>
  An example: at time 0 the statistics of one disease are fetched through both caches and
  a search is made, each with a successful answer. Later the backend is down.
\<close>

definition stats_answer :: "nat list rpc_outcome" where
  "stats_answer = Inr (Response (Some [7]) None)"

definition search_answer :: "nat list rpc_outcome" where
  "search_answer = Inr (Response (Some [1, 2, 3]) None)"

definition backend_down :: "nat list rpc_outcome" where
  "backend_down = Inl (JsError (js ''unavailable''))"

definition example_events :: "nat cache_event list" where
  "example_events =
     [GetCachedDiseaseStats stats_answer (JStr (js ''d1'')),
      GetDiseaseStats stats_answer (JStr (js ''d1'')),
      SearchFeatures search_answer (JStr (js ''dy'')) JUndefined]"

definition example_runtime :: "nat runtime" where
  "example_runtime = cache_run example_events (new_runtime 0)"

text \<open>
  The key under which \<^verbatim>\<open>searchFeatures\<close> caches a query, the time that a list of events
  takes, and whether a list of events, run from a state, stores an entry under a key
  anew (a search for that key that misses and is answered with success).
\<close>

definition cache_key_of :: "jsval \<Rightarrow> jsval \<Rightarrow> jsstring" where
  "cache_key_of query limit =
     search_key query (if limit = JUndefined then JNum MAX_SEARCH_RESULTS else limit)"

fun cache_elapsed :: "'d cache_event list \<Rightarrow> nat" where
  "cache_elapsed [] = 0"
| "cache_elapsed (PassTime dt # es) = dt + cache_elapsed es"
| "cache_elapsed (e # es) = cache_elapsed es"

fun stores :: "jsstring \<Rightarrow> 'd cache_event \<Rightarrow> 'd runtime \<Rightarrow> bool" where
  "stores key (SearchFeatures rpc query limit) rt \<longleftrightarrow>
     cache_key_of query limit = key \<and> cache rt key = None \<and> \<not> rpc_failed rpc"
| "stores key e rt \<longleftrightarrow> False"

fun stored_anew :: "jsstring \<Rightarrow> 'd cache_event list \<Rightarrow> 'd runtime \<Rightarrow> bool" where
  "stored_anew key [] rt \<longleftrightarrow> False"
| "stored_anew key (e # es) rt \<longleftrightarrow> stores key e rt \<or> stored_anew key es (cache_step e rt)"

text \<open>Every pending timer is due in the future.\<close>

definition timers_future :: "'d runtime \<Rightarrow> bool" where
  "timers_future rt \<longleftrightarrow> list_all (\<lambda>tm. clock rt < fst tm) (ttl_timers rt)"

text \<open>If the key is cached, a pending timer for it is due by \<open>T\<close>.\<close>

definition covered_until :: "nat \<Rightarrow> jsstring \<Rightarrow> 'd runtime \<Rightarrow> bool" where
  "covered_until T key rt \<longleftrightarrow>
     cache rt key = None \<or> (\<exists>tm \<in> set (ttl_timers rt). snd tm = key \<and> fst tm \<le> T)"

section \<open>Properties of the tokenizer\<close>

lemmas chars = plus_sign_def minus_sign_def up_arrow_def down_arrow_def less_sign_def
  equals_sign_def greater_sign_def

text \<open>The model on the examples of the user interface.\<close>

lemma tokenize_examples:
  "parseTokensClient (js ''+Dyspnea'') =
     [\<lparr>original = js ''+Dyspnea'', cleanToken = js ''Dyspnea'', isPresent = True,
       valueModifier = JNull, numericValue = JNull\<rparr>]"
  "parseTokensClient (js ''-Murmur'') =
     [\<lparr>original = js ''-Murmur'', cleanToken = js ''Murmur'', isPresent = False,
       valueModifier = JNull, numericValue = JNull\<rparr>]"
  "parseTokensClient (js ''Ferritin'' @ [down_arrow]) =
     [\<lparr>original = js ''Ferritin'' @ [down_arrow], cleanToken = js ''Ferritin'', isPresent = True,
       valueModifier = JStr [down_arrow], numericValue = JNull\<rparr>]"
  "parseTokensClient (js ''Hemoglobin>=12'') =
     [\<lparr>original = js ''Hemoglobin>=12'', cleanToken = js ''Hemoglobin'', isPresent = True,
       valueModifier = JStr (js ''>=''), numericValue = JStr (js ''12'')\<rparr>]"
  "parseTokensClient (js ''  '') = []"
  "map original (parseTokensClient (js '' +Dyspnea   -Murmur '')) = [js ''+Dyspnea'', js ''-Murmur'']"
  by code_simp+

lemma match_operator_digits_SomeD:
  assumes "match_operator_digits s = Some (opr, ds)"
  shows "s = opr @ ds \<and> ds \<noteq> [] \<and> list_all is_digit ds \<and> opr \<in> set comparison_operators"
  using assms
  by (auto simp: match_operator_digits_def comparison_operators_def
           split: list.splits if_splits)

lemma lazy_group_SomeD:
  "lazy_group g s = Some (w, opr, ds) \<Longrightarrow>
     (\<exists>p. w = g @ p \<and> s = p @ opr @ ds) \<and> ds \<noteq> [] \<and> list_all is_digit ds \<and>
     opr \<in> set comparison_operators"
proof (induction g s rule: lazy_group.induct)
  case (1 g)
  then show ?case by simp
next
  case (2 g c r)
  show ?case
  proof (cases "match_operator_digits (c # r)")
    case None
    with "2.prems" have nt: "\<not> is_line_terminator c" and rec: "lazy_group (g @ [c]) r = Some (w, opr, ds)"
      by (auto split: if_splits)
    from "2.IH"[OF None nt rec] show ?thesis by auto
  next
    case (Some a)
    obtain o' d' where a: "a = (o', d')" by (cases a)
    with Some "2.prems" have "w = g" "o' = opr" "d' = ds" by auto
    with Some a match_operator_digits_SomeD[of "c # r" opr ds] show ?thesis by auto
  qed
qed

lemma comparisonMatch_SomeD:
  assumes "comparisonMatch s = Some (w, opr, ds)"
  shows "s = w @ opr @ ds \<and> w \<noteq> [] \<and> ds \<noteq> [] \<and> list_all is_digit ds \<and>
         opr \<in> set comparison_operators"
proof (cases s)
  case Nil
  with assms show ?thesis by (simp add: comparisonMatch_def)
next
  case (Cons c r)
  with assms have "lazy_group [c] r = Some (w, opr, ds)"
    by (auto simp: comparisonMatch_def split: if_splits)
  from lazy_group_SomeD[OF this] Cons show ?thesis by auto
qed

lemma comparisonMatch_Nil: "comparisonMatch [] = None"
  by (simp add: comparisonMatch_def)


lemma strip_direction_cases:
  "strip_direction s = (m, s2) \<Longrightarrow>
     s2 = s \<and> \<not> ends_with_arrow s \<and> m = JNull \<or>
     ends_with_arrow s \<and> s2 = butlast s \<and> (m = JStr [up_arrow] \<or> m = JStr [down_arrow])"
  by (auto simp: strip_direction_def ends_with_arrow_def split: if_splits)

lemma parse_loop_mem:
  "t \<in> set (parse_loop xs) \<longleftrightarrow> (\<exists>tok \<in> set xs. tok \<noteq> [] \<and> t = parse_token tok)"
  by (induction xs) auto

lemma split_whitespace_no_ws:
  "p \<in> set (split_whitespace s) \<Longrightarrow> c \<in> set p \<Longrightarrow> \<not> is_whitespace c"
proof (induction s rule: split_whitespace.induct)
  case (1 s)
  show ?case
  proof (cases "dropWhile (\<lambda>c. \<not> is_whitespace c) s")
    case Nil
    then have all: "\<forall>x\<in>set s. \<not> is_whitespace x"
      by simp
    have "split_whitespace s = [s]"
      by (subst split_whitespace.simps) (simp only: Nil list.case)
    with "1.prems" have "p = s" by simp
    with all "1.prems" show ?thesis by simp
  next
    case (Cons w rest)
    have "split_whitespace s = takeWhile (\<lambda>c. \<not> is_whitespace c) s #
        split_whitespace (dropWhile is_whitespace rest)"
      by (subst split_whitespace.simps) (simp only: Cons list.case)
    with "1.prems" have "p = takeWhile (\<lambda>c. \<not> is_whitespace c) s \<or>
        p \<in> set (split_whitespace (dropWhile is_whitespace rest))"
      by simp
    then show ?thesis
    proof
      assume "p = takeWhile (\<lambda>c. \<not> is_whitespace c) s"
      with "1.prems" show ?thesis by (auto dest: set_takeWhileD)
    next
      assume "p \<in> set (split_whitespace (dropWhile is_whitespace rest))"
      from "1.IH"[OF Cons this "1.prems"(2)] show ?thesis .
    qed
  qed
qed

lemma split_whitespace_plain:
  assumes "\<forall>c\<in>set s. \<not> is_whitespace c"
  shows "split_whitespace s = [s]"
proof -
  have "dropWhile (\<lambda>c. \<not> is_whitespace c) s = []"
    using assms by simp
  then show ?thesis by (subst split_whitespace.simps) (simp only: list.case)
qed

lemma trim_plain:
  assumes "\<forall>c\<in>set s. \<not> is_whitespace c"
  shows "trim s = s"
proof -
  have "dropWhile is_whitespace s = s"
    using assms by (cases s) auto
  moreover have "dropWhile is_whitespace (rev s) = rev s"
    using assms by (cases "rev s") auto
  ultimately show ?thesis by (simp add: trim_def)
qed

lemma parseTokensClient_fragment:
  assumes "\<forall>c\<in>set tok. \<not> is_whitespace c"
  shows "parseTokensClient tok = (if tok = [] then [] else [parse_token tok])"
  using assms by (simp add: parseTokensClient_def trim_plain split_whitespace_plain)

lemma parse_token_unfold:
  "parse_token tok =
     (case comparisonMatch (snd (strip_direction (snd (strip_sign tok)))) of
        Some (w, opr, ds) \<Rightarrow>
          \<lparr>original = tok, cleanToken = w, isPresent = fst (strip_sign tok),
           valueModifier = JStr opr, numericValue = JStr ds\<rparr>
      | None \<Rightarrow>
          \<lparr>original = tok, cleanToken = snd (strip_direction (snd (strip_sign tok))),
           isPresent = fst (strip_sign tok),
           valueModifier = fst (strip_direction (snd (strip_sign tok))),
           numericValue = JNull\<rparr>)"
  by (simp add: parse_token_def case_prod_beta split: option.splits)

lemma original_parse_token: "original (parse_token tok) = tok"
  by (simp add: parse_token_unfold split: option.splits)


lemma strip_sign_shorter: "starts_with_sign tok \<Longrightarrow> length (snd (strip_sign tok)) < length tok"
  by (auto simp: strip_sign_def starts_with_sign_def split: list.splits)

lemma strip_sign_none: "\<not> starts_with_sign tok \<Longrightarrow> strip_sign tok = (True, tok)"
  by (auto simp: strip_sign_def starts_with_sign_def split: list.splits)

lemma strip_direction_length: "length (snd (strip_direction s)) \<le> length s"
  by (simp add: strip_direction_def)

lemma strip_direction_shorter: "ends_with_arrow s \<Longrightarrow> length (snd (strip_direction s)) < length s"
  by (auto simp: strip_direction_def ends_with_arrow_def)

lemma strip_direction_none: "\<not> ends_with_arrow s \<Longrightarrow> strip_direction s = (JNull, s)"
  by (auto simp: strip_direction_def ends_with_arrow_def)

lemma strip_sign_set: "set (snd (strip_sign tok)) \<subseteq> set tok"
  by (auto simp: strip_sign_def split: list.splits)

lemma strip_direction_set: "set (snd (strip_direction s)) \<subseteq> set s"
  by (auto simp: strip_direction_def dest: in_set_butlastD)

lemma cleanToken_length:
  "length (cleanToken (parse_token tok)) \<le> length (snd (strip_direction (snd (strip_sign tok))))"
  by (auto simp: parse_token_unfold split: option.splits dest: comparisonMatch_SomeD)

lemma cleanToken_shorter_if_match:
  "comparisonMatch (snd (strip_direction (snd (strip_sign tok)))) \<noteq> None \<Longrightarrow>
     length (cleanToken (parse_token tok)) < length (snd (strip_direction (snd (strip_sign tok))))"
  by (auto simp: parse_token_unfold split: option.splits dest: comparisonMatch_SomeD)

lemma cleanToken_set: "set (cleanToken (parse_token tok)) \<subseteq> set tok"
proof -
  let ?s2 = "snd (strip_direction (snd (strip_sign tok)))"
  have "set (cleanToken (parse_token tok)) \<subseteq> set ?s2"
    by (auto simp: parse_token_unfold split: option.splits dest: comparisonMatch_SomeD)
  also have "\<dots> \<subseteq> set (snd (strip_sign tok))" by (rule strip_direction_set)
  also have "\<dots> \<subseteq> set tok" by (rule strip_sign_set)
  finally show ?thesis .
qed

lemma parseTokensClient_mem:
  assumes "t \<in> set (parseTokensClient s)"
  obtains tok where "t = parse_token tok" "tok \<noteq> []" "\<forall>c\<in>set tok. \<not> is_whitespace c"
proof -
  from assms obtain tok where tok: "tok \<in> set (split_whitespace (trim s))" "tok \<noteq> []"
      "t = parse_token tok"
    by (auto simp: parseTokensClient_def parse_loop_mem)
  from tok(1) have "\<forall>c\<in>set tok. \<not> is_whitespace c"
    by (auto dest: split_whitespace_no_ws)
  with tok that show thesis by blast
qed

lemma cleanToken_empty_iff:
  "cleanToken (parse_token tok) = [] \<longleftrightarrow> snd (strip_direction (snd (strip_sign tok))) = []"
  by (auto simp: parse_token_unfold comparisonMatch_Nil split: option.splits
           dest: comparisonMatch_SomeD)

lemma strip_direction_Nil_iff:
  "snd (strip_direction s) = [] \<longleftrightarrow> s = [] \<or> s = [up_arrow] \<or> s = [down_arrow]"
  by (cases s rule: rev_cases) (auto simp: strip_direction_def)

lemma strip_sign_eq_iff:
  "tok \<noteq> [] \<Longrightarrow> snd (strip_sign tok) = x \<longleftrightarrow>
     tok = plus_sign # x \<or> tok = minus_sign # x \<or> (tok = x \<and> \<not> starts_with_sign tok)"
  by (cases tok) (auto simp: strip_sign_def starts_with_sign_def)

lemma bare_iff:
  assumes "tok \<noteq> []"
  shows "cleanToken (parse_token tok) = [] \<longleftrightarrow> tok \<in> set bare_fragments"
proof -
  have "cleanToken (parse_token tok) = [] \<longleftrightarrow>
      snd (strip_sign tok) = [] \<or> snd (strip_sign tok) = [up_arrow] \<or>
      snd (strip_sign tok) = [down_arrow]"
    by (simp add: cleanToken_empty_iff strip_direction_Nil_iff)
  also have "\<dots> \<longleftrightarrow> tok \<in> set bare_fragments"
    using assms
    by (auto simp: strip_sign_eq_iff bare_fragments_def starts_with_sign_def chars)
  finally show ?thesis .
qed

text \<open>
  Claim C8, as amended. A token of the output has an empty \<open>cleanToken\<close> exactly when
  its fragment is nothing but a sign, an arrow, or a sign followed by an arrow; the
  \<open>cleanToken\<close> of every other fragment is not empty.
\<close>

theorem clean_text_empty_iff_bare:
  assumes "t \<in> set (parseTokensClient s)"
  shows "cleanToken t = [] \<longleftrightarrow> original t \<in> set bare_fragments"
proof -
  from assms obtain tok where "t = parse_token tok" "tok \<noteq> []"
    by (rule parseTokensClient_mem)
  then show ?thesis by (simp add: bare_iff original_parse_token)
qed

theorem clean_text_empty_iff_bare_witness:
  "parse_token (js ''-Murmur'') \<in> set (parseTokensClient (js ''+Dyspnea -Murmur'')) \<and>
   cleanToken (parse_token (js ''-Murmur'')) \<noteq> []"
proof -
  have m: "parse_token (js ''-Murmur'') \<in> set (parseTokensClient (js ''+Dyspnea -Murmur''))"
    by code_simp
  have "original (parse_token (js ''-Murmur'')) \<notin> set bare_fragments"
    by code_simp
  with clean_text_empty_iff_bare[OF m] m show ?thesis by blast
qed

text \<open>
  The fragment \<^verbatim>\<open>+\<close> is not empty and has no white space, and its \<open>cleanToken\<close> is empty.
\<close>

theorem sign_only_clean_text_empty_counterexample:
  "map cleanToken (parseTokensClient (js ''+'')) = [[]] \<and> js ''+'' \<noteq> [] \<and> list_all (\<lambda>c. \<not> is_whitespace c) (js ''+'')"
  by code_simp

lemma retokenize_fragment:
  assumes "\<forall>x\<in>set c. \<not> is_whitespace x"
  shows "retokenizes_to_itself c \<longleftrightarrow>
     c \<noteq> [] \<and> cleanToken (parse_token c) = c \<and> valueModifier (parse_token c) = JNull \<and>
     numericValue (parse_token c) = JNull"
  using assms by (simp add: retokenizes_to_itself_def parseTokensClient_fragment)

lemma fixed_point_iff:
  "cleanToken (parse_token c) = c \<and> valueModifier (parse_token c) = JNull \<and>
     numericValue (parse_token c) = JNull \<longleftrightarrow>
   \<not> starts_with_sign c \<and> \<not> ends_with_arrow c \<and> comparisonMatch c = None"
proof
  assume r: "\<not> starts_with_sign c \<and> \<not> ends_with_arrow c \<and> comparisonMatch c = None"
  then show "cleanToken (parse_token c) = c \<and> valueModifier (parse_token c) = JNull \<and>
     numericValue (parse_token c) = JNull"
    by (simp add: parse_token_unfold strip_sign_none strip_direction_none)
next
  assume l: "cleanToken (parse_token c) = c \<and> valueModifier (parse_token c) = JNull \<and>
     numericValue (parse_token c) = JNull"
  let ?s1 = "snd (strip_sign c)"
  let ?s2 = "snd (strip_direction ?s1)"
  from l have len: "length c \<le> length ?s2"
    using cleanToken_length[of c] by simp
  have a: "\<not> starts_with_sign c"
  proof
    assume "starts_with_sign c"
    then have "length ?s1 < length c" by (rule strip_sign_shorter)
    with len strip_direction_length[of ?s1] show False by simp
  qed
  then have s1: "?s1 = c" by (simp add: strip_sign_none)
  have b: "\<not> ends_with_arrow c"
  proof
    assume "ends_with_arrow c"
    then have "length (snd (strip_direction c)) < length c" by (rule strip_direction_shorter)
    with len s1 show False by simp
  qed
  then have s2: "?s2 = c" by (simp add: s1 strip_direction_none)
  have "comparisonMatch c = None"
  proof (rule ccontr)
    assume "comparisonMatch c \<noteq> None"
    with s2 have "length (cleanToken (parse_token c)) < length c"
      using cleanToken_shorter_if_match[of c] by simp
    with l show False by simp
  qed
  with a b show "\<not> starts_with_sign c \<and> \<not> ends_with_arrow c \<and> comparisonMatch c = None"
    by simp
qed

text \<open>
  Claim C2, as amended. For a token of the output, tokenizing its \<open>cleanToken\<close> again
  gives exactly one token with the same \<open>cleanToken\<close>, no modifier and no numeric value
  if and only if that \<open>cleanToken\<close> is not empty, does not begin with a sign, does not
  end with an arrow and does not itself match the comparison pattern.
\<close>

theorem retokenize_clean_text_iff:
  assumes "t \<in> set (parseTokensClient s)"
  shows "retokenizes_to_itself (cleanToken t) \<longleftrightarrow>
     cleanToken t \<noteq> [] \<and> \<not> starts_with_sign (cleanToken t) \<and>
     \<not> ends_with_arrow (cleanToken t) \<and> comparisonMatch (cleanToken t) = None"
proof -
  from assms obtain tok where tok: "t = parse_token tok" "\<forall>c\<in>set tok. \<not> is_whitespace c"
    by (rule parseTokensClient_mem)
  have "\<forall>x\<in>set (cleanToken t). \<not> is_whitespace x"
    using tok cleanToken_set[of tok] by auto
  then show ?thesis
    using fixed_point_iff[of "cleanToken t"] by (simp add: retokenize_fragment)
qed

theorem retokenize_clean_text_iff_witness:
  "parse_token (js ''MCV<80'') \<in> set (parseTokensClient (js ''+Dyspnea MCV<80'')) \<and>
   retokenizes_to_itself (cleanToken (parse_token (js ''MCV<80'')))"
proof -
  have m: "parse_token (js ''MCV<80'') \<in> set (parseTokensClient (js ''+Dyspnea MCV<80''))"
    by code_simp
  have r: "cleanToken (parse_token (js ''MCV<80'')) \<noteq> [] \<and>
     \<not> starts_with_sign (cleanToken (parse_token (js ''MCV<80''))) \<and>
     \<not> ends_with_arrow (cleanToken (parse_token (js ''MCV<80''))) \<and>
     comparisonMatch (cleanToken (parse_token (js ''MCV<80''))) = None"
    by code_simp
  from retokenize_clean_text_iff[OF m] r m show ?thesis by blast
qed

text \<open>
  Four inputs on which tokenizing the \<open>cleanToken\<close> again does not give it back: it is
  empty, it still begins with a sign, it still ends with an arrow, it still holds a
  comparison.
\<close>

theorem retokenize_not_idempotent_counterexample:
  "map (retokenizes_to_itself \<circ> cleanToken) (parseTokensClient (js ''+'')) = [False] \<and>
   map (retokenizes_to_itself \<circ> cleanToken) (parseTokensClient (js ''++Dyspnea'')) = [False] \<and>
   map (retokenizes_to_itself \<circ> cleanToken) (parseTokensClient (js ''TIBC'' @ [up_arrow, up_arrow])) = [False] \<and>
   map (retokenizes_to_itself \<circ> cleanToken) (parseTokensClient (js ''MCV<80<80'')) = [False]"
  by code_simp

lemma exactly_one_form_parse_token: "exactly_one_form (parse_token tok)"
proof (cases "comparisonMatch (snd (strip_direction (snd (strip_sign tok))))")
  case None
  obtain m s2 where d: "strip_direction (snd (strip_sign tok)) = (m, s2)"
    by (cases "strip_direction (snd (strip_sign tok))")
  from strip_direction_cases[OF d] None d show ?thesis
    by (auto simp: exactly_one_form_def parse_token_unfold is_plain_def is_directional_def
          is_comparison_def)
next
  case (Some a)
  obtain w opr ds where a: "a = (w, opr, ds)" by (cases a)
  from comparisonMatch_SomeD[OF Some[unfolded a]]
  have "ds \<noteq> []" "list_all is_digit ds" "opr \<in> set comparison_operators" "opr \<noteq> [up_arrow]" "opr \<noteq> [down_arrow]"
    by (auto simp: comparison_operators_def chars)
  with Some a show ?thesis
    by (simp add: exactly_one_form_def parse_token_unfold is_plain_def is_directional_def
          is_comparison_def)
qed

text \<open>
  Claim C3, as amended. When the remainder after the sign ends with an arrow, that one
  arrow is removed and the comparison pattern is then tried on what is left: if it does
  not match, \<open>valueModifier\<close> is the arrow and \<open>cleanToken\<close> is the remainder without
  it; if it matches, the operator, the word and the digits of the match are the result.
  Every token of the output has exactly one of the three forms: no modifier, an arrow,
  or a comparison operator with a numeric value.
\<close>

theorem directional_suffix_then_comparison:
  "(snd (strip_sign tok) = r @ [g] \<and> (g = up_arrow \<or> g = down_arrow) \<longrightarrow>
      parse_token tok =
        (case comparisonMatch r of
           None \<Rightarrow>
             \<lparr>original = tok, cleanToken = r, isPresent = fst (strip_sign tok),
              valueModifier = JStr [g], numericValue = JNull\<rparr>
         | Some (w, opr, ds) \<Rightarrow>
             \<lparr>original = tok, cleanToken = w, isPresent = fst (strip_sign tok),
              valueModifier = JStr opr, numericValue = JStr ds\<rparr>)) \<and>
   (t \<in> set (parseTokensClient s) \<longrightarrow> exactly_one_form t)"
proof (intro conjI impI)
  assume h: "snd (strip_sign tok) = r @ [g] \<and> (g = up_arrow \<or> g = down_arrow)"
  then have "strip_direction (snd (strip_sign tok)) = (JStr [g], r)"
    by (auto simp: strip_direction_def chars)
  then show "parse_token tok =
        (case comparisonMatch r of
           None \<Rightarrow>
             \<lparr>original = tok, cleanToken = r, isPresent = fst (strip_sign tok),
              valueModifier = JStr [g], numericValue = JNull\<rparr>
         | Some (w, opr, ds) \<Rightarrow>
             \<lparr>original = tok, cleanToken = w, isPresent = fst (strip_sign tok),
              valueModifier = JStr opr, numericValue = JStr ds\<rparr>)"
    by (simp add: parse_token_unfold split: option.splits)
next
  assume "t \<in> set (parseTokensClient s)"
  then obtain tok' where "t = parse_token tok'" by (rule parseTokensClient_mem)
  then show "exactly_one_form t" by (simp add: exactly_one_form_parse_token)
qed

theorem directional_suffix_then_comparison_witness:
  "snd (strip_sign (js ''-Ferritin'' @ [down_arrow])) = js ''Ferritin'' @ [down_arrow] \<and>
   parse_token (js ''-Ferritin'' @ [down_arrow]) \<in> set (parseTokensClient (js ''-Ferritin'' @ [down_arrow])) \<and>
   parse_token (js ''-Ferritin'' @ [down_arrow]) =
     \<lparr>original = js ''-Ferritin'' @ [down_arrow], cleanToken = js ''Ferritin'', isPresent = False,
       valueModifier = JStr [down_arrow], numericValue = JNull\<rparr> \<and>
   exactly_one_form (parse_token (js ''-Ferritin'' @ [down_arrow]))"
proof -
  let ?tok = "js ''-Ferritin'' @ [down_arrow]"
  have h1: "snd (strip_sign ?tok) = js ''Ferritin'' @ [down_arrow]" by code_simp
  have h2: "parse_token ?tok \<in> set (parseTokensClient ?tok)" by code_simp
  have c: "comparisonMatch (js ''Ferritin'') = None" by code_simp
  have p: "fst (strip_sign ?tok) = False" by code_simp
  from directional_suffix_then_comparison[of ?tok "js ''Ferritin''" down_arrow "parse_token ?tok" ?tok] h1 h2
  have "parse_token ?tok =
        (case comparisonMatch (js ''Ferritin'') of
           None \<Rightarrow>
             \<lparr>original = ?tok, cleanToken = js ''Ferritin'', isPresent = fst (strip_sign ?tok),
              valueModifier = JStr [down_arrow], numericValue = JNull\<rparr>
         | Some (w, opr, ds) \<Rightarrow>
             \<lparr>original = ?tok, cleanToken = w, isPresent = fst (strip_sign ?tok),
              valueModifier = JStr opr, numericValue = JStr ds\<rparr>)"
    and e: "exactly_one_form (parse_token ?tok)"
    by blast+
  then have "parse_token ?tok = \<lparr>original = ?tok, cleanToken = js ''Ferritin'', isPresent = False,
       valueModifier = JStr [down_arrow], numericValue = JNull\<rparr>"
    by (simp only: c p option.case)
  with h1 h2 e show ?thesis by blast
qed

text \<open>
  A remainder that ends with an arrow and whose token has neither the arrow as modifier
  nor the remainder without the arrow as \<open>cleanToken\<close>: the comparison was tried after
  the arrow had matched.
\<close>

theorem comparison_overrides_arrow_counterexample:
  "snd (strip_sign (js ''MCV<80'' @ [up_arrow])) = js ''MCV<80'' @ [up_arrow] \<and>
   parseTokensClient (js ''MCV<80'' @ [up_arrow]) =
     [\<lparr>original = js ''MCV<80'' @ [up_arrow], cleanToken = js ''MCV'', isPresent = True,
       valueModifier = JStr (js ''<''), numericValue = JStr (js ''80'')\<rparr>] \<and>
   JStr (js ''<'') \<noteq> JStr [up_arrow] \<and> js ''MCV'' \<noteq> js ''MCV<80''"
  by code_simp

text \<open>
  Claim C7, as amended. \<^verbatim>\<open>MCV<80\<close> gives one token with \<open>cleanToken\<close> \<^verbatim>\<open>MCV\<close>,
  \<open>valueModifier\<close> \<^verbatim>\<open><\<close> and, as \<open>numericValue\<close>, the digits \<^verbatim>\<open>80\<close> as the text that the
  pattern matched.
\<close>

theorem tokenize_MCV_lt_80:
  "parseTokensClient (js ''MCV<80'') =
     [\<lparr>original = js ''MCV<80'', cleanToken = js ''MCV'', isPresent = True,
       valueModifier = JStr (js ''<''), numericValue = JStr (js ''80'')\<rparr>]"
  by code_simp

text \<open>The \<open>numericValue\<close> of that token is a string, not the number 80.\<close>

theorem numeric_value_is_text_counterexample:
  "map numericValue (parseTokensClient (js ''MCV<80'')) = [JStr (js ''80'')] \<and>
   JStr (js ''80'') \<noteq> JNum 80"
  by code_simp

section \<open>Properties of the resolution workflow\<close>

lemma addFeatureToDisease_sent:
  "snd (addFeatureToDisease db sent d f details) = sent @ [upsert_payload d f details]"
  by (simp add: addFeatureToDisease_def Let_def)

lemma process_tokens_acc:
  "process_tokens db d ts (acc, sent) =
     (acc @ fst (process_tokens db d ts ([], sent)), snd (process_tokens db d ts ([], sent)))"
proof (induction ts arbitrary: acc sent)
  case Nil
  then show ?case by simp
next
  case (Cons t ts)
  show ?case
  proof (cases "truthy (get_prop t ''canonical_feature_id'')")
    case True
    obtain a s' where a: "addFeatureToDisease db sent d (get_prop t ''canonical_feature_id'')
        (feature_details t) = (a, s')"
      by (cases "addFeatureToDisease db sent d (get_prop t ''canonical_feature_id'') (feature_details t)")
    show ?thesis
      using True a Cons.IH[of "acc @ [attempted a t]" s'] Cons.IH[of "[attempted a t]" s']
      by simp
  next
    case False
    show ?thesis
      using False Cons.IH[of "acc @ [manual t]" sent] Cons.IH[of "[manual t]" sent]
      by simp
  qed
qed

lemma process_tokens_Cons:
  "process_tokens db d (t # ts) ([], sent) =
     (if has_feature t
      then (attempted (fst (addFeatureToDisease db sent d (get_prop t ''canonical_feature_id'')
                (feature_details t))) t
              # fst (process_tokens db d ts ([], sent @ [payload_of d t])),
            snd (process_tokens db d ts ([], sent @ [payload_of d t])))
      else (manual t # fst (process_tokens db d ts ([], sent)),
            snd (process_tokens db d ts ([], sent))))"
proof (cases "has_feature t")
  case True
  obtain a s' where a: "addFeatureToDisease db sent d (get_prop t ''canonical_feature_id'')
        (feature_details t) = (a, s')"
    by (cases "addFeatureToDisease db sent d (get_prop t ''canonical_feature_id'') (feature_details t)")
  with addFeatureToDisease_sent[of db sent d "get_prop t ''canonical_feature_id''" "feature_details t"]
  have s': "s' = sent @ [payload_of d t]" by (simp add: payload_of_def)
  show ?thesis
    using True a s' process_tokens_acc[of db d ts "[attempted a t]" s']
    by (simp add: has_feature_def)
next
  case False
  then show ?thesis
    using process_tokens_acc[of db d ts "[manual t]" sent]
    by (simp add: has_feature_def)
qed

lemma process_tokens_sent:
  "snd (process_tokens db d ts ([], sent)) = sent @ map (payload_of d) (filter has_feature ts)"
proof (induction ts arbitrary: sent)
  case Nil
  then show ?case by simp
next
  case (Cons t ts)
  show ?case by (simp only: process_tokens_Cons Cons.IH) simp
qed

lemma process_tokens_length:
  "length (fst (process_tokens db d ts ([], sent))) = length ts"
proof (induction ts arbitrary: sent)
  case Nil
  then show ?case by simp
next
  case (Cons t ts)
  show ?case by (simp only: process_tokens_Cons) (simp add: Cons.IH)
qed

lemma process_tokens_nth:
  "i < length ts \<Longrightarrow>
     fst (process_tokens db d ts ([], sent)) ! i =
       (if has_feature (ts ! i) then attempted (answer_at db d sent ts i) (ts ! i)
        else manual (ts ! i))"
proof (induction ts arbitrary: sent i)
  case Nil
  then show ?case by simp
next
  case (Cons t ts)
  show ?case
  proof (cases i)
    case 0
    then show ?thesis
      by (simp only: process_tokens_Cons) (simp add: answer_at_def sent_before_def)
  next
    case (Suc j)
    with Cons.prems have j: "j < length ts" by simp
    have sb: "sent_before d sent (t # ts) (Suc j) =
        sent_before d (if has_feature t then sent @ [payload_of d t] else sent) ts j"
      by (simp add: sent_before_def)
    show ?thesis
      using Cons.IH[OF j, of "sent @ [payload_of d t]"] Cons.IH[OF j, of sent] Suc sb
      by (simp only: process_tokens_Cons) (simp add: answer_at_def)
  qed
qed

lemma try_block_success:
  assumes "parseMedicalTokens parse_rpc = Response (Some ts) None"
  shows "try_block db parse_rpc d sent =
     (Inr (fst (process_tokens db d ts ([], sent))),
      sent @ map (payload_of d) (filter has_feature ts))"
  using assms process_tokens_sent[of db d ts sent]
  by (simp add: try_block_def case_prod_beta)

lemma try_block_failure:
  assumes "error (parseMedicalTokens parse_rpc) = Some e"
  shows "try_block db parse_rpc d sent = (Inl e, sent)"
  using assms by (simp add: try_block_def)

lemma processTokenInput_success:
  assumes "trim s \<noteq> []" "truthy d" "parseMedicalTokens parse_rpc = Response (Some ts) None"
  shows "processTokenInput db parse_rpc d (JStr s) (st, sent) =
     (Fulfilled,
      st\<lparr>processing := False, error_state := None,
         results := fst (process_tokens db d ts ([], sent))\<rparr>,
      sent @ map (payload_of d) (filter has_feature ts))"
  using assms by (simp add: processTokenInput_def try_block_success)

lemma processTokenInput_failure:
  assumes "trim s \<noteq> []" "truthy d" "error (parseMedicalTokens parse_rpc) = Some e"
  shows "processTokenInput db parse_rpc d (JStr s) (st, sent) =
     (Fulfilled, st\<lparr>processing := False, error_state := Some e, results := []\<rparr>, sent)"
  using assms by (simp add: processTokenInput_def try_block_failure)

lemma processTokenInput_guard:
  assumes "trim s = [] \<or> \<not> truthy d"
  shows "processTokenInput db parse_rpc d (JStr s) (st, sent) = (Fulfilled, st, sent)"
  using assms by (auto simp: processTokenInput_def)

lemma non_string_input_rejects:
  "\<forall>s. tokenString \<noteq> JStr s \<Longrightarrow>
     processTokenInput db parse_rpc d tokenString (st, sent) =
       (Rejected (JsError (js ''TypeError'')), st, sent)"
  by (cases tokenString) (simp_all add: processTokenInput_def)

lemma attempted_props:
  "get_prop (attempted a t) ''added'' = JBool (error a = None)"
  "get_prop (attempted a t) ''addError'' =
     (case error a of None \<Rightarrow> JUndefined | Some e \<Rightarrow> JStr (message e))"
  "k \<noteq> ''added'' \<Longrightarrow> k \<noteq> ''addError'' \<Longrightarrow> attempted a t k = t k"
  by (simp_all add: attempted_def get_prop_def)

lemma manual_props:
  "get_prop (manual t) ''added'' = JBool False"
  "get_prop (manual t) ''needsManualCreation'' = JBool True"
  "k \<noteq> ''added'' \<Longrightarrow> k \<noteq> ''needsManualCreation'' \<Longrightarrow> manual t k = t k"
  by (simp_all add: manual_def get_prop_def)

text \<open>
  Claim C1. When the parse succeeds with the tokens \<open>ts\<close>, the workflow ends normally
  with one result per token, in the order of the tokens: the result at position \<open>i\<close>
  is the token at position \<open>i\<close> with the added properties. A failed
  \<^verbatim>\<open>addFeatureToDisease\<close> is recorded on the result of its own token (\<open>added\<close> is false
  and \<open>addError\<close> is the message of the error), and the tokens after it are still
  processed: an upsert is sent for every token that has a feature.
\<close>

theorem attach_failure_does_not_stop_workflow:
  assumes "trim s \<noteq> []" and "truthy diseaseId"
    and "parseMedicalTokens parse_rpc = Response (Some ts) None"
    and "processTokenInput db parse_rpc diseaseId (JStr s) (st, sent) = (outcome, st', sent')"
  shows "outcome = Fulfilled \<and> error_state st' = None \<and> length (results st') = length ts \<and>
     sent' = sent @ map (payload_of diseaseId) (filter has_feature ts) \<and>
     (\<forall>i<length ts.
        (\<forall>k. own_property k \<longrightarrow> (results st' ! i) k = (ts ! i) k) \<and>
        (has_feature (ts ! i) \<longrightarrow>
           (case error (answer_at db diseaseId sent ts i) of
              Some e \<Rightarrow>
                get_prop (results st' ! i) ''added'' = JBool False \<and>
                get_prop (results st' ! i) ''addError'' = JStr (message e)
            | None \<Rightarrow> get_prop (results st' ! i) ''added'' = JBool True)) \<and>
        (\<not> has_feature (ts ! i) \<longrightarrow>
           get_prop (results st' ! i) ''added'' = JBool False \<and>
           get_prop (results st' ! i) ''needsManualCreation'' = JBool True))"
proof -
  let ?rs = "fst (process_tokens db diseaseId ts ([], sent))"
  from processTokenInput_success[OF assms(1-3), of db st sent] assms(4)
  have o: "outcome = Fulfilled"
    and st': "st' = st\<lparr>processing := False, error_state := None, results := ?rs\<rparr>"
    and s': "sent' = sent @ map (payload_of diseaseId) (filter has_feature ts)"
    by simp_all
  have r: "results st' = ?rs" by (simp add: st')
  have "\<forall>i<length ts.
        (\<forall>k. own_property k \<longrightarrow> (?rs ! i) k = (ts ! i) k) \<and>
        (has_feature (ts ! i) \<longrightarrow>
           (case error (answer_at db diseaseId sent ts i) of
              Some e \<Rightarrow>
                get_prop (?rs ! i) ''added'' = JBool False \<and>
                get_prop (?rs ! i) ''addError'' = JStr (message e)
            | None \<Rightarrow> get_prop (?rs ! i) ''added'' = JBool True)) \<and>
        (\<not> has_feature (ts ! i) \<longrightarrow>
           get_prop (?rs ! i) ''added'' = JBool False \<and>
           get_prop (?rs ! i) ''needsManualCreation'' = JBool True)"
  proof (intro allI impI)
    fix i assume i: "i < length ts"
    show "(\<forall>k. own_property k \<longrightarrow> (?rs ! i) k = (ts ! i) k) \<and>
        (has_feature (ts ! i) \<longrightarrow>
           (case error (answer_at db diseaseId sent ts i) of
              Some e \<Rightarrow>
                get_prop (?rs ! i) ''added'' = JBool False \<and>
                get_prop (?rs ! i) ''addError'' = JStr (message e)
            | None \<Rightarrow> get_prop (?rs ! i) ''added'' = JBool True)) \<and>
        (\<not> has_feature (ts ! i) \<longrightarrow>
           get_prop (?rs ! i) ''added'' = JBool False \<and>
           get_prop (?rs ! i) ''needsManualCreation'' = JBool True)"
      by (simp add: process_tokens_nth[OF i] attempted_props manual_props own_property_def
            split: option.splits)
  qed
  moreover have "error_state st' = None" by (simp add: st')
  moreover have "length ?rs = length ts" by (rule process_tokens_length)
  ultimately show ?thesis
    unfolding r using o s' by blast
qed

lemma trim_example: "trim (js ''+Dyspnea -Murmur MCV<80'') \<noteq> []"
  by code_simp

lemma three_tokens_answers:
  "has_feature (three_tokens ! 0)" "\<not> has_feature (three_tokens ! 1)"
  "has_feature (three_tokens ! 2)"
  "error (answer_at db_refusing_1 (JNum 5) [] three_tokens 0) = Some (JsError (js ''denied''))"
  "error (answer_at db_refusing_1 (JNum 5) [] three_tokens 2) = None"
  by (simp_all add: three_tokens_def has_feature_def get_prop_def answer_at_def
        addFeatureToDisease_def Let_def db_refusing_1_def upsert_payload_def feature_details_def
        map_add_def)

theorem attach_failure_does_not_stop_workflow_witness:
  "trim (js ''+Dyspnea -Murmur MCV<80'') \<noteq> [] \<and> truthy (JNum 5) \<and>
   parseMedicalTokens (Inr (Response (Some three_tokens) None)) = Response (Some three_tokens) None \<and>
   length (results (fst (snd (processTokenInput db_refusing_1
       (Inr (Response (Some three_tokens) None)) (JNum 5)
       (JStr (js ''+Dyspnea -Murmur MCV<80'')) (st0, []))))) = 3 \<and>
   get_prop (results (fst (snd (processTokenInput db_refusing_1
       (Inr (Response (Some three_tokens) None)) (JNum 5)
       (JStr (js ''+Dyspnea -Murmur MCV<80'')) (st0, [])))) ! 0) ''added'' = JBool False \<and>
   get_prop (results (fst (snd (processTokenInput db_refusing_1
       (Inr (Response (Some three_tokens) None)) (JNum 5)
       (JStr (js ''+Dyspnea -Murmur MCV<80'')) (st0, [])))) ! 0) ''addError'' = JStr (js ''denied'') \<and>
   get_prop (results (fst (snd (processTokenInput db_refusing_1
       (Inr (Response (Some three_tokens) None)) (JNum 5)
       (JStr (js ''+Dyspnea -Murmur MCV<80'')) (st0, [])))) ! 1) ''needsManualCreation'' = JBool True \<and>
   get_prop (results (fst (snd (processTokenInput db_refusing_1
       (Inr (Response (Some three_tokens) None)) (JNum 5)
       (JStr (js ''+Dyspnea -Murmur MCV<80'')) (st0, [])))) ! 2) ''added'' = JBool True"
proof -
  let ?r = "processTokenInput db_refusing_1
       (Inr (Response (Some three_tokens) None)) (JNum 5)
       (JStr (js ''+Dyspnea -Murmur MCV<80'')) (st0, [])"
  have h1: "trim (js ''+Dyspnea -Murmur MCV<80'') \<noteq> []" by (rule trim_example)
  have h2: "truthy (JNum 5)" by simp
  have h3: "parseMedicalTokens (Inr (Response (Some three_tokens) None)) =
      Response (Some three_tokens) None"
    by (simp add: parseMedicalTokens_def)
  have h4: "?r = (fst ?r, fst (snd ?r), snd (snd ?r))" by simp
  have l: "length three_tokens = 3" by (simp add: three_tokens_def)
  note t = attach_failure_does_not_stop_workflow[OF h1 h2 h3 h4]
  from t l have n: "length (results (fst (snd ?r))) = 3" by simp
  from t l have
    "has_feature (three_tokens ! 0) \<longrightarrow>
       (case error (answer_at db_refusing_1 (JNum 5) [] three_tokens 0) of
          Some e \<Rightarrow>
            get_prop (results (fst (snd ?r)) ! 0) ''added'' = JBool False \<and>
            get_prop (results (fst (snd ?r)) ! 0) ''addError'' = JStr (message e)
        | None \<Rightarrow> get_prop (results (fst (snd ?r)) ! 0) ''added'' = JBool True)"
    by simp
  then have a0: "get_prop (results (fst (snd ?r)) ! 0) ''added'' = JBool False \<and>
      get_prop (results (fst (snd ?r)) ! 0) ''addError'' = JStr (js ''denied'')"
    using three_tokens_answers by simp
  from t l have
    "\<not> has_feature (three_tokens ! 1) \<longrightarrow>
       get_prop (results (fst (snd ?r)) ! 1) ''added'' = JBool False \<and>
       get_prop (results (fst (snd ?r)) ! 1) ''needsManualCreation'' = JBool True"
    by simp
  then have a1: "get_prop (results (fst (snd ?r)) ! 1) ''needsManualCreation'' = JBool True"
    using three_tokens_answers by simp
  from t l have
    "has_feature (three_tokens ! 2) \<longrightarrow>
       (case error (answer_at db_refusing_1 (JNum 5) [] three_tokens 2) of
          Some e \<Rightarrow>
            get_prop (results (fst (snd ?r)) ! 2) ''added'' = JBool False \<and>
            get_prop (results (fst (snd ?r)) ! 2) ''addError'' = JStr (message e)
        | None \<Rightarrow> get_prop (results (fst (snd ?r)) ! 2) ''added'' = JBool True)"
    by simp
  then have a2: "get_prop (results (fst (snd ?r)) ! 2) ''added'' = JBool True"
    using three_tokens_answers by simp
  from h1 h2 h3 n a0 a1 a2 show ?thesis by blast
qed

lemma payload_of_props:
  "payload_of d token ''disease_id'' = Some d"
  "payload_of d token ''feature_id'' = Some (get_prop token ''canonical_feature_id'')"
  "payload_of d token ''is_present'' = Some (get_prop token ''is_present'')"
  "payload_of d token ''value_text'' =
     Some (if truthy (get_prop token ''value_modifier'') then get_prop token ''value_modifier''
           else JNull)"
  "payload_of d token ''typicality'' = Some (JStr (js ''common''))"
  "payload_of d token ''weight'' = Some (JNum 1)"
  by (simp_all add: payload_of_def upsert_payload_def feature_details_def map_add_def)

text \<open>
  Claim C4, as amended. On a successful parse the upserts sent are those of the tokens
  that have a feature, in order. The payload of a token carries the disease, the feature
  of the token, \<open>is_present\<close> of the token, and as \<open>value_text\<close> the \<open>value_modifier\<close> of
  the token (the arrow or the comparison operator alone), or \<^verbatim>\<open>null\<close> when the token has
  none. The numeric value of the token is not part of the payload.
\<close>

theorem attach_payload_of_token:
  assumes "trim s \<noteq> []" and "truthy diseaseId"
    and "parseMedicalTokens parse_rpc = Response (Some ts) None"
  shows "snd (snd (processTokenInput db parse_rpc diseaseId (JStr s) (st, sent))) =
       sent @ map (payload_of diseaseId) (filter has_feature ts) \<and>
     get_prop (payload_of diseaseId token) ''disease_id'' = diseaseId \<and>
     get_prop (payload_of diseaseId token) ''feature_id'' = get_prop token ''canonical_feature_id'' \<and>
     get_prop (payload_of diseaseId token) ''is_present'' = get_prop token ''is_present'' \<and>
     get_prop (payload_of diseaseId token) ''value_text'' =
       (if truthy (get_prop token ''value_modifier'') then get_prop token ''value_modifier''
        else JNull)"
  using processTokenInput_success[OF assms, of db st sent]
  by (simp add: get_prop_def payload_of_props)

theorem attach_payload_of_token_witness:
  "trim (js ''MCV<80'') \<noteq> [] \<and> truthy (JNum 5) \<and>
   parseMedicalTokens (Inr (Response (Some [token_MCV]) None)) = Response (Some [token_MCV]) None \<and>
   length (snd (snd (processTokenInput db_accepting (Inr (Response (Some [token_MCV]) None))
       (JNum 5) (JStr (js ''MCV<80'')) (st0, [])))) = 1 \<and>
   get_prop (payload_of (JNum 5) token_MCV) ''is_present'' = JBool True \<and>
   get_prop (payload_of (JNum 5) token_MCV) ''value_text'' = JStr (js ''<'')"
proof -
  have h1: "trim (js ''MCV<80'') \<noteq> []" by code_simp
  have h2: "truthy (JNum 5)" by simp
  have h3: "parseMedicalTokens (Inr (Response (Some [token_MCV]) None)) =
      Response (Some [token_MCV]) None"
    by (simp add: parseMedicalTokens_def)
  have f: "has_feature token_MCV" by (simp add: has_feature_def token_MCV_def get_prop_def)
  have p: "get_prop token_MCV ''is_present'' = JBool True"
    "get_prop token_MCV ''value_modifier'' = JStr (js ''<'')"
    by (simp_all add: token_MCV_def get_prop_def)
  have n: "js ''<'' \<noteq> []" by (simp add: js_def)
  from attach_payload_of_token[OF h1 h2 h3, of db_accepting st0 "[]" token_MCV] f p n
  have "length (snd (snd (processTokenInput db_accepting (Inr (Response (Some [token_MCV]) None))
       (JNum 5) (JStr (js ''MCV<80'')) (st0, [])))) = 1 \<and>
   get_prop (payload_of (JNum 5) token_MCV) ''is_present'' = JBool True \<and>
   get_prop (payload_of (JNum 5) token_MCV) ''value_text'' = JStr (js ''<'')"
    by simp
  with h1 h2 h3 show ?thesis by blast
qed

lemma run_MCV:
  "processTokenInput db_accepting (Inr (Response (Some [token_MCV]) None))
       (JNum 5) (JStr (js ''MCV<80'')) (st0, []) = (Fulfilled,
      st0\<lparr>processing := False, error_state := None,
         results := fst (process_tokens db_accepting (JNum 5) [token_MCV] ([], []))\<rparr>,
      [payload_of (JNum 5) token_MCV])"
proof -
  have h1: "trim (js ''MCV<80'') \<noteq> []" by code_simp
  have h3: "parseMedicalTokens (Inr (Response (Some [token_MCV]) None)) =
      Response (Some [token_MCV]) None"
    by (simp add: parseMedicalTokens_def)
  have f: "has_feature token_MCV" by (simp add: has_feature_def token_MCV_def get_prop_def)
  show ?thesis
    using processTokenInput_success[OF h1 _ h3, of "JNum 5" db_accepting st0 "[]"] f by simp
qed

text \<open>
  A token with the modifier \<^verbatim>\<open><\<close> and the numeric value 80: the \<open>value_text\<close> sent is
  \<^verbatim>\<open><\<close>, not \<^verbatim>\<open><80\<close>.
\<close>

theorem value_text_without_number_counterexample:
  "get_prop token_MCV ''value_modifier'' = JStr (js ''<'') \<and>
   get_prop token_MCV ''numeric_value'' = JNum 80 \<and>
   map (\<lambda>payload. get_prop payload ''value_text'')
     (snd (snd (processTokenInput db_accepting (Inr (Response (Some [token_MCV]) None))
        (JNum 5) (JStr (js ''MCV<80'')) (st0, [])))) = [JStr (js ''<'')] \<and>
   JStr (js ''<'') \<noteq> JStr (js ''<80'')"
proof -
  have p: "get_prop token_MCV ''value_modifier'' = JStr (js ''<'')"
    "get_prop token_MCV ''numeric_value'' = JNum 80"
    by (simp_all add: token_MCV_def get_prop_def)
  have n: "js ''<'' \<noteq> []" "js ''<'' \<noteq> js ''<80''" by (simp_all add: js_def)
  show ?thesis
    using p n by (simp add: run_MCV get_prop_def payload_of_props)
qed

lemma processTokenInput_never_rejects:
  "fst (processTokenInput db parse_rpc d (JStr s) (st, sent)) = Fulfilled"
  by (simp add: processTokenInput_def Let_def split: prod.splits sum.splits)

text \<open>
  Claim C9, as amended. Called with a string, \<^verbatim>\<open>processTokenInput\<close> never rejects. With
  no disease it returns at once and changes nothing. A failure of the parse call is
  caught and stored as the error of the hook, with an empty list of results and no
  upsert sent. A failure of an upsert is recorded on the result of its token and is not
  an error of the hook.
\<close>

theorem workflow_never_rejects:
  "fst (processTokenInput db parse_rpc diseaseId (JStr s) (st, sent)) = Fulfilled \<and>
   (\<not> truthy diseaseId \<longrightarrow>
      processTokenInput db parse_rpc diseaseId (JStr s) (st, sent) = (Fulfilled, st, sent)) \<and>
   (trim s \<noteq> [] \<and> truthy diseaseId \<and> error (parseMedicalTokens parse_rpc) = Some e \<longrightarrow>
      processTokenInput db parse_rpc diseaseId (JStr s) (st, sent) =
        (Fulfilled, st\<lparr>processing := False, error_state := Some e, results := []\<rparr>, sent)) \<and>
   (trim s \<noteq> [] \<and> truthy diseaseId \<and> parseMedicalTokens parse_rpc = Response (Some ts) None \<and>
    i < length ts \<and> has_feature (ts ! i) \<and> error (answer_at db diseaseId sent ts i) = Some e \<longrightarrow>
      error_state (fst (snd (processTokenInput db parse_rpc diseaseId (JStr s) (st, sent)))) = None \<and>
      get_prop (results (fst (snd (processTokenInput db parse_rpc diseaseId (JStr s) (st, sent)))) ! i)
        ''added'' = JBool False \<and>
      get_prop (results (fst (snd (processTokenInput db parse_rpc diseaseId (JStr s) (st, sent)))) ! i)
        ''addError'' = JStr (message e))"
proof (intro conjI impI)
  show "fst (processTokenInput db parse_rpc diseaseId (JStr s) (st, sent)) = Fulfilled"
    by (rule processTokenInput_never_rejects)
next
  assume "\<not> truthy diseaseId"
  then show "processTokenInput db parse_rpc diseaseId (JStr s) (st, sent) = (Fulfilled, st, sent)"
    by (simp add: processTokenInput_guard)
next
  assume "trim s \<noteq> [] \<and> truthy diseaseId \<and> error (parseMedicalTokens parse_rpc) = Some e"
  then show "processTokenInput db parse_rpc diseaseId (JStr s) (st, sent) =
        (Fulfilled, st\<lparr>processing := False, error_state := Some e, results := []\<rparr>, sent)"
    by (simp add: processTokenInput_failure)
next
  assume a: "trim s \<noteq> [] \<and> truthy diseaseId \<and>
    parseMedicalTokens parse_rpc = Response (Some ts) None \<and>
    i < length ts \<and> has_feature (ts ! i) \<and> error (answer_at db diseaseId sent ts i) = Some e"
  then have r: "processTokenInput db parse_rpc diseaseId (JStr s) (st, sent) =
     (Fulfilled,
      st\<lparr>processing := False, error_state := None,
         results := fst (process_tokens db diseaseId ts ([], sent))\<rparr>,
      sent @ map (payload_of diseaseId) (filter has_feature ts))"
    by (simp add: processTokenInput_success)
  from a have i: "i < length ts" by simp
  show "error_state (fst (snd (processTokenInput db parse_rpc diseaseId (JStr s) (st, sent)))) = None"
    by (simp add: r)
  show "get_prop (results (fst (snd (processTokenInput db parse_rpc diseaseId (JStr s) (st, sent)))) ! i)
        ''added'' = JBool False"
    using a by (simp add: r process_tokens_nth[OF i] attempted_props)
  show "get_prop (results (fst (snd (processTokenInput db parse_rpc diseaseId (JStr s) (st, sent)))) ! i)
        ''addError'' = JStr (message e)"
    using a by (simp add: r process_tokens_nth[OF i] attempted_props)
qed

text \<open>
  Without a disease the call is fulfilled and nothing changes; and when the parse call
  fails, the error is in the state of the hook and there is no result to carry it.
\<close>

theorem missing_disease_does_not_throw_counterexample:
  "processTokenInput db_accepting (Inr (Response (Some [token_MCV]) None)) JNull
     (JStr (js ''MCV<80'')) (st0, []) = (Fulfilled, st0, []) \<and>
   processTokenInput db_accepting parse_unavailable (JNum 5) (JStr (js ''MCV<80'')) (st0, []) =
     (Fulfilled,
      \<lparr>processing = False, results = [], error_state = Some (JsError (js ''unavailable''))\<rparr>, [])"
proof -
  have h1: "trim (js ''MCV<80'') \<noteq> []" by code_simp
  have e: "error (parseMedicalTokens parse_unavailable) = Some (JsError (js ''unavailable''))"
    by (simp add: parseMedicalTokens_def parse_unavailable_def)
  show ?thesis
    using processTokenInput_failure[OF h1 _ e, of "JNum 5" db_accepting st0 "[]"]
    by (simp add: processTokenInput_guard st0_def)
qed

theorem workflow_never_rejects_witness:
  "\<not> truthy JNull \<and> trim (js ''MCV<80'') \<noteq> [] \<and> truthy (JNum 5) \<and>
   error (parseMedicalTokens parse_unavailable) = Some (JsError (js ''unavailable'')) \<and>
   fst (processTokenInput db_accepting parse_unavailable (JNum 5) (JStr (js ''MCV<80'')) (st0, []))
     = Fulfilled \<and>
   error_state (fst (snd (processTokenInput db_accepting parse_unavailable (JNum 5)
      (JStr (js ''MCV<80'')) (st0, [])))) = Some (JsError (js ''unavailable'')) \<and>
   processTokenInput db_accepting parse_unavailable JNull (JStr (js ''MCV<80'')) (st0, []) =
     (Fulfilled, st0, []) \<and>
   trim (js ''+Dyspnea -Murmur MCV<80'') \<noteq> [] \<and>
   parseMedicalTokens (Inr (Response (Some three_tokens) None)) = Response (Some three_tokens) None \<and>
   0 < length three_tokens \<and> has_feature (three_tokens ! 0) \<and>
   error (answer_at db_refusing_1 (JNum 5) [] three_tokens 0) = Some (JsError (js ''denied'')) \<and>
   error_state (fst (snd (processTokenInput db_refusing_1
       (Inr (Response (Some three_tokens) None)) (JNum 5)
       (JStr (js ''+Dyspnea -Murmur MCV<80'')) (st0, [])))) = None \<and>
   get_prop (results (fst (snd (processTokenInput db_refusing_1
       (Inr (Response (Some three_tokens) None)) (JNum 5)
       (JStr (js ''+Dyspnea -Murmur MCV<80'')) (st0, [])))) ! 0) ''addError'' = JStr (js ''denied'')"
proof -
  have h0: "\<not> truthy JNull" by simp
  have h1: "trim (js ''MCV<80'') \<noteq> []" by code_simp
  have h2: "truthy (JNum 5)" by simp
  have e: "error (parseMedicalTokens parse_unavailable) = Some (JsError (js ''unavailable''))"
    by (simp add: parseMedicalTokens_def parse_unavailable_def)
  have g1: "trim (js ''+Dyspnea -Murmur MCV<80'') \<noteq> []" by (rule trim_example)
  have g3: "parseMedicalTokens (Inr (Response (Some three_tokens) None)) =
      Response (Some three_tokens) None"
    by (simp add: parseMedicalTokens_def)
  have g4: "0 < length three_tokens" by (simp add: three_tokens_def)
  have g5: "has_feature (three_tokens ! 0)" by (rule three_tokens_answers(1))
  have g6: "error (answer_at db_refusing_1 (JNum 5) [] three_tokens 0) =
      Some (JsError (js ''denied''))"
    by (rule three_tokens_answers(4))
  note t1 = workflow_never_rejects[of db_accepting parse_unavailable "JNum 5" "js ''MCV<80''" st0 "[]"
      "JsError (js ''unavailable'')" "[]" 0]
  note t2 = workflow_never_rejects[of db_accepting parse_unavailable JNull "js ''MCV<80''" st0 "[]"
      "JsError (js ''unavailable'')" "[]" 0]
  note t3 = workflow_never_rejects[of db_refusing_1 "Inr (Response (Some three_tokens) None)"
      "JNum 5" "js ''+Dyspnea -Murmur MCV<80''" st0 "[]" "JsError (js ''denied'')" three_tokens 0]
  from t1 h1 h2 e have a: "fst (processTokenInput db_accepting parse_unavailable (JNum 5)
      (JStr (js ''MCV<80'')) (st0, [])) = Fulfilled"
    and b: "processTokenInput db_accepting parse_unavailable (JNum 5) (JStr (js ''MCV<80'')) (st0, []) =
        (Fulfilled, st0\<lparr>processing := False, error_state := Some (JsError (js ''unavailable'')),
           results := []\<rparr>, [])"
    by blast+
  from t2 h0 have c: "processTokenInput db_accepting parse_unavailable JNull
      (JStr (js ''MCV<80'')) (st0, []) = (Fulfilled, st0, [])"
    by blast
  from b have d: "error_state (fst (snd (processTokenInput db_accepting parse_unavailable (JNum 5)
      (JStr (js ''MCV<80'')) (st0, [])))) = Some (JsError (js ''unavailable''))"
    by simp
  from t3 g1 h2 g3 g4 g5 g6
  have f: "error_state (fst (snd (processTokenInput db_refusing_1
       (Inr (Response (Some three_tokens) None)) (JNum 5)
       (JStr (js ''+Dyspnea -Murmur MCV<80'')) (st0, [])))) = None \<and>
    get_prop (results (fst (snd (processTokenInput db_refusing_1
       (Inr (Response (Some three_tokens) None)) (JNum 5)
       (JStr (js ''+Dyspnea -Murmur MCV<80'')) (st0, [])))) ! 0) ''addError'' =
      JStr (message (JsError (js ''denied'')))"
    by blast
  then have f': "error_state (fst (snd (processTokenInput db_refusing_1
       (Inr (Response (Some three_tokens) None)) (JNum 5)
       (JStr (js ''+Dyspnea -Murmur MCV<80'')) (st0, [])))) = None \<and>
    get_prop (results (fst (snd (processTokenInput db_refusing_1
       (Inr (Response (Some three_tokens) None)) (JNum 5)
       (JStr (js ''+Dyspnea -Murmur MCV<80'')) (st0, [])))) ! 0) ''addError'' = JStr (js ''denied'')"
    by simp
  from h0 h1 h2 e a d c g1 g3 g4 g5 g6 f' show ?thesis by blast
qed

section \<open>Properties of the debounced search\<close>

lemma fold_fire:
  "fold (fire f) ts d =
     d\<lparr>searched := searched d @ map (\<lambda>t. (promise t, call_args t)) ts,
       settled := settled d @ map (\<lambda>t. (promise t, f (call_args t))) ts\<rparr>"
  by (induction ts arbitrary: d) (simp_all add: fire_def)

lemma wait_fields:
  "now (wait f dt d) = now d + dt"
  "timers (wait f dt d) = filter (\<lambda>t. \<not> due t \<le> now d + dt) (timers d)"
  "promises (wait f dt d) = promises d"
  "timeoutId (wait f dt d) = timeoutId d"
  "searched (wait f dt d) =
     searched d @ map (\<lambda>t. (promise t, call_args t)) (filter (\<lambda>t. due t \<le> now d + dt) (timers d))"
  "settled (wait f dt d) =
     settled d @ map (\<lambda>t. (promise t, f (call_args t))) (filter (\<lambda>t. due t \<le> now d + dt) (timers d))"
  by (simp_all add: wait_def Let_def fold_fire)

lemma call_fields:
  "fst (debounced_call delay a d) = promises d"
  "now (snd (debounced_call delay a d)) = now d"
  "timers (snd (debounced_call delay a d)) =
     clearTimeout (timeoutId d) (timers d) @
       [\<lparr>timer_id = next_timer_id d, due = now d + delay, call_args = a, promise = promises d\<rparr>]"
  "promises (snd (debounced_call delay a d)) = Suc (promises d)"
  "timeoutId (snd (debounced_call delay a d)) = Some (next_timer_id d)"
  "searched (snd (debounced_call delay a d)) = searched d"
  "settled (snd (debounced_call delay a d)) = settled d"
  by (simp_all add: debounced_call_def Let_def)

lemma set_clearTimeout: "set (clearTimeout tid ts) \<subseteq> set ts"
  by (auto simp: clearTimeout_def split: option.splits)

lemma clearTimeout_removes:
  "t \<in> set (clearTimeout (Some i) ts) \<Longrightarrow> timer_id t \<noteq> i"
  by (simp add: clearTimeout_def)

lemma wf_create: "wf_debounced (createDebouncedSearch t0)"
  by (simp add: wf_debounced_def createDebouncedSearch_def)

lemma wf_call: "wf_debounced d \<Longrightarrow> wf_debounced (snd (debounced_call delay a d))"
  using set_clearTimeout[of "timeoutId d" "timers d"]
  by (auto simp: wf_debounced_def call_fields list_all_iff less_Suc_eq)

lemma wf_wait: "wf_debounced d \<Longrightarrow> wf_debounced (wait f dt d)"
  by (auto simp: wf_debounced_def wait_fields list_all_iff)

lemma wf_step: "wf_debounced d \<Longrightarrow> wf_debounced (step f delay e d)"
  by (cases e) (simp_all add: wf_call wf_wait)

lemma wf_run: "wf_debounced d \<Longrightarrow> wf_debounced (run f delay es d)"
  unfolding run_def by (induction es arbitrary: d) (simp_all add: wf_step)

lemma waiting_after_call:
  assumes "wf_debounced d"
  shows "waiting (now d + delay) (promises d) (snd (debounced_call delay a d))"
  using assms set_clearTimeout[of "timeoutId d" "timers d"]
  by (fastforce simp: wf_debounced_def waiting_def call_fields list_all_iff)

lemma dropped_after_call:
  assumes "waiting T p d"
  shows "dropped p (snd (debounced_call delay a d))"
proof -
  have "promise t \<noteq> p" if t: "t \<in> set (clearTimeout (timeoutId d) (timers d))" for t
  proof
    assume p: "promise t = p"
    from t set_clearTimeout[of "timeoutId d" "timers d"] have "t \<in> set (timers d)" by auto
    with assms p have "timeoutId d = Some (timer_id t)"
      by (auto simp: waiting_def list_all_iff)
    with t clearTimeout_removes[of t "timer_id t" "timers d"] show False by simp
  qed
  with assms show ?thesis
    by (auto simp: waiting_def dropped_def call_fields list_all_iff)
qed

lemma dropped_waiting: "dropped p d \<Longrightarrow> waiting T p d"
  by (auto simp: waiting_def dropped_def list_all_iff)

lemma waiting_wait:
  assumes "waiting T p d" "now d + dt < T"
  shows "waiting T p (wait f dt d)"
  using assms by (auto simp: waiting_def wait_fields list_all_iff)

lemma dropped_wait: "dropped p d \<Longrightarrow> dropped p (wait f dt d)"
  by (auto simp: dropped_def wait_fields list_all_iff)

lemma dropped_step: "dropped p d \<Longrightarrow> dropped p (step f delay e d)"
  by (cases e) (simp_all add: dropped_wait dropped_after_call[OF dropped_waiting])

lemma dropped_run: "dropped p d \<Longrightarrow> dropped p (run f delay es d)"
  unfolding run_def by (induction es arbitrary: d) (simp_all add: dropped_step)


lemma waiting_run:
  "waiting T p d \<Longrightarrow> now d + elapsed es < T \<Longrightarrow> waiting T p (run f delay es d)"
  unfolding run_def
proof (induction es arbitrary: d)
  case Nil
  then show ?case by simp
next
  case (Cons e es)
  show ?case
  proof (cases e)
    case (Call a)
    with Cons.prems have "waiting T p (step f delay e d)"
      by (simp add: dropped_waiting[OF dropped_after_call])
    moreover from Call Cons.prems have "now (step f delay e d) + elapsed es < T"
      by (simp add: call_fields)
    ultimately show ?thesis using Cons.IH by simp
  next
    case (Wait dt)
    with Cons.prems have "waiting T p (step f delay e d)"
      by (simp add: waiting_wait)
    moreover from Wait Cons.prems have "now (step f delay e d) + elapsed es < T"
      by (simp add: wait_fields)
    ultimately show ?thesis using Cons.IH by simp
  qed
qed

lemma delivered_after_delay:
  "(promises d, a) \<in> set (searched (wait f delay (snd (debounced_call delay a d)))) \<and>
   (promises d, f a) \<in> set (settled (wait f delay (snd (debounced_call delay a d))))"
  by (simp add: wait_fields call_fields)

text \<open>
  Claim C5. Take any state that the debounced function can reach, a call in it, and a
  later call made before the delay of the first has elapsed (whatever other calls and
  waits lie between the two). Then, whatever happens afterwards, \<^verbatim>\<open>searchFunction\<close> is
  never called for the first call and the promise of the first call is never settled.
  The later call, if no further call follows within the delay, reaches
  \<^verbatim>\<open>searchFunction\<close> and its promise is settled with the outcome.
\<close>

theorem superseded_call_never_delivered:
  assumes "d0 = run f delay es0 (createDebouncedSearch t0)"
    and "debounced_call delay a1 d0 = (p1, d1)"
    and "elapsed es1 < delay"
    and "debounced_call delay a2 (run f delay es1 d1) = (p2, d3)"
  shows "p1 \<noteq> p2 \<and>
     p1 \<notin> fst ` set (searched (run f delay es2 d3)) \<and>
     p1 \<notin> fst ` set (settled (run f delay es2 d3)) \<and>
     (p2, a2) \<in> set (searched (wait f delay d3)) \<and>
     (p2, f a2) \<in> set (settled (wait f delay d3))"
proof -
  have wf0: "wf_debounced d0"
    unfolding assms(1) by (rule wf_run[OF wf_create])
  from assms(2) have p1: "p1 = promises d0" and d1: "d1 = snd (debounced_call delay a1 d0)"
    using call_fields(1)[of delay a1 d0] by simp_all
  have w1: "waiting (now d0 + delay) p1 d1"
    unfolding p1 d1 by (rule waiting_after_call[OF wf0])
  have "now d1 = now d0" by (simp add: d1 call_fields)
  with assms(3) have "now d1 + elapsed es1 < now d0 + delay" by simp
  with w1 have w2: "waiting (now d0 + delay) p1 (run f delay es1 d1)"
    by (rule waiting_run)
  from assms(4) have p2: "p2 = promises (run f delay es1 d1)"
    and d3: "d3 = snd (debounced_call delay a2 (run f delay es1 d1))"
    using call_fields(1)[of delay a2 "run f delay es1 d1"] by simp_all
  from w2 have "p1 < p2" by (simp add: waiting_def p2)
  moreover have "dropped p1 d3"
    unfolding d3 by (rule dropped_after_call[OF w2])
  then have "dropped p1 (run f delay es2 d3)" by (rule dropped_run)
  moreover note delivered_after_delay[of "run f delay es1 d1" a2 f delay]
  ultimately show ?thesis
    by (simp add: dropped_def p2 d3)
qed

lemma after_first_call_eval:
  "debounced_call 300 (js ''dy'') (run search_stub 300 [] (createDebouncedSearch 0)) =
     (0, after_first_call)"
  by (simp add: after_first_call_def run_def debounced_call_def Let_def createDebouncedSearch_def)

lemma after_second_call_eval:
  "debounced_call 300 (js ''dys'') (run search_stub 300 [Wait 100] after_first_call) =
     (1, after_second_call)"
  by (simp add: after_second_call_def after_first_call_def run_def debounced_call_def Let_def
        createDebouncedSearch_def wait_def clearTimeout_def)

theorem superseded_call_never_delivered_witness:
  "elapsed [Wait 100 :: jsstring event] < 300 \<and>
   debounced_call 300 (js ''dy'') (run search_stub 300 [] (createDebouncedSearch 0)) =
     (0, after_first_call) \<and>
   debounced_call 300 (js ''dys'') (run search_stub 300 [Wait 100] after_first_call) =
     (1, after_second_call) \<and>
   0 \<notin> fst ` set (searched (run search_stub 300 [Wait 1000] after_second_call)) \<and>
   0 \<notin> fst ` set (settled (run search_stub 300 [Wait 1000] after_second_call)) \<and>
   (1, js ''dys'') \<in> set (searched (wait search_stub 300 after_second_call)) \<and>
   (1, search_stub (js ''dys'')) \<in> set (settled (wait search_stub 300 after_second_call))"
proof -
  have h3: "elapsed [Wait 100 :: jsstring event] < 300" by simp
  from superseded_call_never_delivered[OF refl after_first_call_eval h3 after_second_call_eval, of "[Wait 1000]"]
  show ?thesis using h3 after_first_call_eval after_second_call_eval by blast
qed

lemma two_keystrokes_one_search:
  "searched (run search_stub 300 [Wait 1000] after_second_call) = [(1, js ''dys'')]"
  by (simp add: after_second_call_def after_first_call_def run_def debounced_call_def Let_def
        createDebouncedSearch_def wait_def clearTimeout_def fire_def)

section \<open>Properties of the caches\<close>

lemma is_search_key_search [simp]: "is_search_key (search_key query limit)"
  by (simp add: is_search_key_def search_key_def)

lemma not_search_key_stats [simp]: "\<not> is_search_key (stats_key diseaseId)"
  by (simp add: is_search_key_def stats_key_def js_def)

lemma key_distinct [simp]:
  "search_key query limit \<noteq> stats_key diseaseId"
  "stats_key diseaseId \<noteq> search_key query limit"
  using is_search_key_search[of query limit] not_search_key_stats[of diseaseId]
  by metis+

lemma fold_delete:
  "fold (\<lambda>tm c. c(snd tm := None)) ts c key = (if key \<in> snd ` set ts then None else c key)"
  by (induction ts arbitrary: c) auto

lemma pass_time_fields:
  "clock (pass_time dt rt) = clock rt + dt"
  "ttl_timers (pass_time dt rt) = filter (\<lambda>tm. \<not> fst tm \<le> clock rt + dt) (ttl_timers rt)"
  "cache (pass_time dt rt) key =
     (if key \<in> snd ` set (filter (\<lambda>tm. fst tm \<le> clock rt + dt) (ttl_timers rt)) then None
      else cache rt key)"
  "quickPeekCache (pass_time dt rt) = quickPeekCache rt"
  by (simp_all add: pass_time_def Let_def fold_delete)

lemma searchFeatures_cases:
  "snd (BackendService_searchFeatures rpc query limit rt) = rt \<or>
   (\<exists>key result. is_search_key key \<and> error result = None \<and>
      snd (BackendService_searchFeatures rpc query limit rt) =
        rt\<lparr>cache := (cache rt)(key \<mapsto> result),
           ttl_timers := ttl_timers rt @ [(clock rt + CACHE_TTL_MS, key)]\<rparr>)"
proof -
  let ?key = "search_key query (if limit = JUndefined then JNum MAX_SEARCH_RESULTS else limit)"
  show ?thesis
  proof (cases "cache rt ?key = None \<and> \<not> rpc_failed rpc")
    case False
    then have "snd (BackendService_searchFeatures rpc query limit rt) = rt"
      by (auto simp: BackendService_searchFeatures_def rpc_failed_def Let_def
            split: option.splits sum.splits)
    then show ?thesis by (rule disjI1)
  next
    case True
    then obtain r where r: "rpc = Inr r" "error r = None"
      by (auto simp: rpc_failed_def split: sum.splits)
    let ?result = "Response (map_option Rows (data r)) None"
    from True r have "snd (BackendService_searchFeatures rpc query limit rt) =
        rt\<lparr>cache := (cache rt)(?key \<mapsto> ?result),
           ttl_timers := ttl_timers rt @ [(clock rt + CACHE_TTL_MS, ?key)]\<rparr>"
      by (simp add: BackendService_searchFeatures_def Let_def)
    moreover have "is_search_key ?key" by simp
    moreover have "error ?result = None" by simp
    ultimately show ?thesis by blast
  qed
qed

lemma getDiseaseStats_cases:
  "snd (BackendService_getDiseaseStats rpc diseaseId rt) = rt \<or>
   (\<exists>result. error result = None \<and>
      snd (BackendService_getDiseaseStats rpc diseaseId rt) =
        rt\<lparr>cache := (cache rt)(stats_key diseaseId \<mapsto> result)\<rparr>)"
proof (cases "cache rt (stats_key diseaseId) = None \<and> \<not> rpc_failed rpc")
  case False
  then have "snd (BackendService_getDiseaseStats rpc diseaseId rt) = rt"
    by (auto simp: BackendService_getDiseaseStats_def rpc_failed_def Let_def
          split: option.splits sum.splits)
  then show ?thesis by (rule disjI1)
next
  case True
  then obtain r where r: "rpc = Inr r" "error r = None"
    by (auto simp: rpc_failed_def split: sum.splits)
  let ?result = "Response (first_row (data r)) None"
  from True r have "snd (BackendService_getDiseaseStats rpc diseaseId rt) =
        rt\<lparr>cache := (cache rt)(stats_key diseaseId \<mapsto> ?result)\<rparr>"
    by (simp add: BackendService_getDiseaseStats_def Let_def)
  moreover have "error ?result = None" by simp
  ultimately show ?thesis by blast
qed

lemma getDiseaseStats_data_error:
  "data (getDiseaseStats rpc) \<noteq> None \<Longrightarrow> error (getDiseaseStats rpc) = None"
  by (auto simp: getDiseaseStats_def split: sum.splits option.splits)

lemma getCachedDiseaseStats_cases:
  "snd (getCachedDiseaseStats rpc diseaseId rt) = rt \<or>
   (\<exists>result. error result = None \<and>
      snd (getCachedDiseaseStats rpc diseaseId rt) =
        rt\<lparr>quickPeekCache := (quickPeekCache rt)(diseaseId \<mapsto> result)\<rparr>)"
proof (cases "quickPeekCache rt diseaseId = None \<and> data (getDiseaseStats rpc) \<noteq> None")
  case False
  then have "snd (getCachedDiseaseStats rpc diseaseId rt) = rt"
    by (auto simp: getCachedDiseaseStats_def Let_def split: option.splits)
  then show ?thesis by (rule disjI1)
next
  case True
  then have "snd (getCachedDiseaseStats rpc diseaseId rt) =
        rt\<lparr>quickPeekCache := (quickPeekCache rt)(diseaseId \<mapsto> getDiseaseStats rpc)\<rparr>"
    by (auto simp: getCachedDiseaseStats_def Let_def)
  moreover from True have "error (getDiseaseStats rpc) = None"
    by (simp add: getDiseaseStats_data_error)
  ultimately show ?thesis by blast
qed

lemma timers_cover_new: "timers_cover (new_runtime t0)"
  by (simp add: timers_cover_def new_runtime_def)

lemma timers_cover_pass_time:
  assumes "timers_cover rt"
  shows "timers_cover (pass_time dt rt)"
  unfolding timers_cover_def
proof (intro conjI allI impI)
  fix key
  assume k: "is_search_key key \<and> cache (pass_time dt rt) key \<noteq> None"
  then have nf: "key \<notin> snd ` set (filter (\<lambda>tm. fst tm \<le> clock rt + dt) (ttl_timers rt))"
    and c: "cache rt key \<noteq> None"
    by (auto simp: pass_time_fields split: if_splits)
  from assms k c obtain tm where tm: "tm \<in> set (ttl_timers rt)" "snd tm = key"
      "fst tm \<le> clock rt + CACHE_TTL_MS"
    by (auto simp: timers_cover_def)
  with nf have "\<not> fst tm \<le> clock rt + dt" by force
  with tm have "tm \<in> set (ttl_timers (pass_time dt rt))"
    and "snd tm = key \<and> fst tm \<le> clock (pass_time dt rt) + CACHE_TTL_MS"
    by (simp_all add: pass_time_fields)
  then show "\<exists>tm\<in>set (ttl_timers (pass_time dt rt)).
      snd tm = key \<and> fst tm \<le> clock (pass_time dt rt) + CACHE_TTL_MS"
    by (rule bexI[rotated])
next
  from assms show "list_all (\<lambda>tm. is_search_key (snd tm)) (ttl_timers (pass_time dt rt))"
    by (auto simp: timers_cover_def pass_time_fields list_all_iff)
qed

lemma timers_cover_searchFeatures:
  assumes "timers_cover rt"
  shows "timers_cover (snd (BackendService_searchFeatures rpc query limit rt))"
  using searchFeatures_cases[of rpc query limit rt]
proof
  assume "snd (BackendService_searchFeatures rpc query limit rt) = rt"
  with assms show ?thesis by simp
next
  assume "\<exists>key result. is_search_key key \<and> error result = None \<and>
      snd (BackendService_searchFeatures rpc query limit rt) =
        rt\<lparr>cache := (cache rt)(key \<mapsto> result),
           ttl_timers := ttl_timers rt @ [(clock rt + CACHE_TTL_MS, key)]\<rparr>"
  then obtain key result where k: "is_search_key key"
    and e: "snd (BackendService_searchFeatures rpc query limit rt) =
        rt\<lparr>cache := (cache rt)(key \<mapsto> result),
           ttl_timers := ttl_timers rt @ [(clock rt + CACHE_TTL_MS, key)]\<rparr>"
    by blast
  from assms k show ?thesis
    unfolding e timers_cover_def by (auto simp: list_all_iff)
qed

lemma timers_cover_getDiseaseStats:
  assumes "timers_cover rt"
  shows "timers_cover (snd (BackendService_getDiseaseStats rpc diseaseId rt))"
  using getDiseaseStats_cases[of rpc diseaseId rt]
proof
  assume "snd (BackendService_getDiseaseStats rpc diseaseId rt) = rt"
  with assms show ?thesis by simp
next
  assume "\<exists>result. error result = None \<and>
      snd (BackendService_getDiseaseStats rpc diseaseId rt) =
        rt\<lparr>cache := (cache rt)(stats_key diseaseId \<mapsto> result)\<rparr>"
  then obtain result where
    e: "snd (BackendService_getDiseaseStats rpc diseaseId rt) =
        rt\<lparr>cache := (cache rt)(stats_key diseaseId \<mapsto> result)\<rparr>"
    by blast
  from assms show ?thesis
    unfolding e timers_cover_def by auto
qed

lemma timers_cover_getCachedDiseaseStats:
  assumes "timers_cover rt"
  shows "timers_cover (snd (getCachedDiseaseStats rpc diseaseId rt))"
  using getCachedDiseaseStats_cases[of rpc diseaseId rt] assms
  by (auto simp: timers_cover_def)

lemma timers_cover_step: "timers_cover rt \<Longrightarrow> timers_cover (cache_step e rt)"
proof (cases e)
  case (SearchFeatures rpc query limit)
  assume "timers_cover rt"
  with SearchFeatures show ?thesis by (simp add: timers_cover_searchFeatures)
next
  case (GetDiseaseStats rpc diseaseId)
  assume "timers_cover rt"
  with GetDiseaseStats show ?thesis by (simp add: timers_cover_getDiseaseStats)
next
  case (GetCachedDiseaseStats rpc diseaseId)
  assume "timers_cover rt"
  with GetCachedDiseaseStats show ?thesis by (simp add: timers_cover_getCachedDiseaseStats)
next
  case ClearCache
  assume "timers_cover rt"
  with ClearCache show ?thesis by (simp add: timers_cover_def clearCache_def)
next
  case (ClearCacheByPrefix p)
  assume "timers_cover rt"
  with ClearCacheByPrefix show ?thesis by (simp add: timers_cover_def clearCacheByPrefix_def)
next
  case ClearQuickPeekCache
  assume "timers_cover rt"
  with ClearQuickPeekCache show ?thesis by (simp add: timers_cover_def clearQuickPeekCache_def)
next
  case (PassTime dt)
  assume "timers_cover rt"
  with PassTime show ?thesis by (simp add: timers_cover_pass_time)
qed

lemma timers_cover_run: "timers_cover rt \<Longrightarrow> timers_cover (cache_run es rt)"
  unfolding cache_run_def by (induction es arbitrary: rt) (simp_all add: timers_cover_step)

lemma search_entries_expire:
  assumes "timers_cover rt" "CACHE_TTL_MS \<le> dt" "is_search_key key"
  shows "cache (pass_time dt rt) key = None"
proof (cases "cache rt key")
  case None
  then show ?thesis by (simp add: pass_time_fields)
next
  case (Some r)
  with assms obtain tm where tm: "tm \<in> set (ttl_timers rt)" "snd tm = key"
      "fst tm \<le> clock rt + CACHE_TTL_MS"
    by (auto simp: timers_cover_def)
  with assms(2) have "tm \<in> set (filter (\<lambda>tm. fst tm \<le> clock rt + dt) (ttl_timers rt))"
    by simp
  with tm(2) have "key \<in> snd ` set (filter (\<lambda>tm. fst tm \<le> clock rt + dt) (ttl_timers rt))"
    by (metis imageI)
  then show ?thesis by (simp add: pass_time_fields)
qed

lemma stats_entries_stay:
  assumes "timers_cover rt"
  shows "cache (pass_time dt rt) (stats_key diseaseId) = cache rt (stats_key diseaseId)"
proof -
  have "stats_key diseaseId \<notin> snd ` set (filter (\<lambda>tm. fst tm \<le> clock rt + dt) (ttl_timers rt))"
  proof
    assume "stats_key diseaseId \<in> snd ` set (filter (\<lambda>tm. fst tm \<le> clock rt + dt) (ttl_timers rt))"
    then obtain tm where "tm \<in> set (ttl_timers rt)" "snd tm = stats_key diseaseId" by auto
    with assms have "is_search_key (stats_key diseaseId)"
      by (auto simp: timers_cover_def list_all_iff)
    then show False by simp
  qed
  then show ?thesis by (simp add: pass_time_fields)
qed

lemma is_search_key_cache_key [simp]: "is_search_key (cache_key_of query limit)"
  by (simp add: cache_key_of_def)

lemma searchFeatures_store:
  assumes "cache rt (cache_key_of query limit) = None" "rpc = Inr a" "error a = None"
  shows "BackendService_searchFeatures rpc query limit rt =
     (Response (map_option Rows (data a)) None,
      rt\<lparr>cache := (cache rt)(cache_key_of query limit \<mapsto> Response (map_option Rows (data a)) None),
         ttl_timers := ttl_timers rt @ [(clock rt + CACHE_TTL_MS, cache_key_of query limit)]\<rparr>)"
  using assms by (simp add: BackendService_searchFeatures_def cache_key_of_def Let_def)

lemma searchFeatures_hit:
  assumes "cache rt (cache_key_of query limit) = Some hit"
  shows "BackendService_searchFeatures rpc query limit rt = (hit, rt)"
  using assms by (simp add: BackendService_searchFeatures_def cache_key_of_def Let_def)

lemma searchFeatures_no_store:
  assumes "cache rt (cache_key_of query limit) \<noteq> None \<or> rpc_failed rpc"
  shows "snd (BackendService_searchFeatures rpc query limit rt) = rt"
  using assms
  by (auto simp: BackendService_searchFeatures_def cache_key_of_def Let_def rpc_failed_def
        split: option.splits sum.splits)

lemma searchFeatures_snd_cases:
  "snd (BackendService_searchFeatures rpc query limit rt) = rt \<or>
   (\<exists>result. cache rt (cache_key_of query limit) = None \<and> \<not> rpc_failed rpc \<and>
      snd (BackendService_searchFeatures rpc query limit rt) =
        rt\<lparr>cache := (cache rt)(cache_key_of query limit \<mapsto> result),
           ttl_timers := ttl_timers rt @ [(clock rt + CACHE_TTL_MS, cache_key_of query limit)]\<rparr>)"
proof (cases "cache rt (cache_key_of query limit) = None \<and> \<not> rpc_failed rpc")
  case False
  then have "snd (BackendService_searchFeatures rpc query limit rt) = rt"
    by (intro searchFeatures_no_store) auto
  then show ?thesis by (rule disjI1)
next
  case True
  then obtain a where a: "rpc = Inr a" "error a = None"
    by (auto simp: rpc_failed_def split: sum.splits)
  from True searchFeatures_store[OF _ a, of rt query limit] show ?thesis by auto
qed

lemma clock_step: "clock (cache_step e rt) = clock rt + cache_elapsed [e]"
proof (cases e)
  case (SearchFeatures rpc query limit)
  with searchFeatures_snd_cases[of rpc query limit rt] show ?thesis by auto
next
  case (GetDiseaseStats rpc diseaseId)
  with getDiseaseStats_cases[of rpc diseaseId rt] show ?thesis by auto
next
  case (GetCachedDiseaseStats rpc diseaseId)
  with getCachedDiseaseStats_cases[of rpc diseaseId rt] show ?thesis by auto
qed (simp_all add: clearCache_def clearCacheByPrefix_def clearQuickPeekCache_def pass_time_fields)

lemma cache_elapsed_Cons: "cache_elapsed (e # es) = cache_elapsed [e] + cache_elapsed es"
  by (cases e) simp_all

lemma clock_run: "clock (cache_run es rt) = clock rt + cache_elapsed es"
  unfolding cache_run_def
proof (induction es arbitrary: rt)
  case Nil
  then show ?case by simp
next
  case (Cons e es)
  show ?case
    using Cons.IH[of "cache_step e rt"] cache_elapsed_Cons[of e es]
    by (simp add: clock_step)
qed

lemma ttl_positive: "0 < CACHE_TTL_MS"
  by (simp add: CACHE_TTL_MS_def)

lemma timers_future_step: "timers_future rt \<Longrightarrow> timers_future (cache_step e rt)"
proof (cases e)
  case (SearchFeatures rpc query limit)
  assume "timers_future rt"
  with SearchFeatures searchFeatures_snd_cases[of rpc query limit rt] ttl_positive show ?thesis
    by (fastforce simp: timers_future_def list_all_iff)
next
  case (GetDiseaseStats rpc diseaseId)
  assume "timers_future rt"
  with GetDiseaseStats getDiseaseStats_cases[of rpc diseaseId rt] show ?thesis
    by (auto simp: timers_future_def)
next
  case (GetCachedDiseaseStats rpc diseaseId)
  assume "timers_future rt"
  with GetCachedDiseaseStats getCachedDiseaseStats_cases[of rpc diseaseId rt] show ?thesis
    by (auto simp: timers_future_def)
next
  case ClearCache
  assume "timers_future rt"
  with ClearCache show ?thesis by (simp add: timers_future_def clearCache_def)
next
  case (ClearCacheByPrefix p)
  assume "timers_future rt"
  with ClearCacheByPrefix show ?thesis by (simp add: timers_future_def clearCacheByPrefix_def)
next
  case ClearQuickPeekCache
  assume "timers_future rt"
  with ClearQuickPeekCache show ?thesis by (simp add: timers_future_def clearQuickPeekCache_def)
next
  case (PassTime dt)
  assume "timers_future rt"
  with PassTime show ?thesis
    by (auto simp: timers_future_def pass_time_fields list_all_iff)
qed

lemma timers_future_run: "timers_future rt \<Longrightarrow> timers_future (cache_run es rt)"
  unfolding cache_run_def by (induction es arbitrary: rt) (simp_all add: timers_future_step)

lemma timers_future_new: "timers_future (new_runtime t0)"
  by (simp add: timers_future_def new_runtime_def)

lemma covered_pass_time:
  assumes "covered_until T key rt"
  shows "covered_until T key (pass_time dt rt)"
proof (cases "cache (pass_time dt rt) key")
  case None
  then show ?thesis by (simp add: covered_until_def)
next
  case (Some r)
  then have nf: "key \<notin> snd ` set (filter (\<lambda>tm. fst tm \<le> clock rt + dt) (ttl_timers rt))"
    and c: "cache rt key \<noteq> None"
    by (auto simp: pass_time_fields split: if_splits)
  from assms c obtain tm where tm: "tm \<in> set (ttl_timers rt)" "snd tm = key" "fst tm \<le> T"
    by (auto simp: covered_until_def)
  with nf have "\<not> fst tm \<le> clock rt + dt" by force
  with tm have "tm \<in> set (ttl_timers (pass_time dt rt))" by (simp add: pass_time_fields)
  with tm show ?thesis unfolding covered_until_def by blast
qed

lemma covered_step:
  assumes "covered_until T key rt" "is_search_key key" "\<not> stores key e rt"
  shows "covered_until T key (cache_step e rt)"
proof (cases e)
  case (SearchFeatures rpc query limit)
  from searchFeatures_snd_cases[of rpc query limit rt] show ?thesis
  proof
    assume "snd (BackendService_searchFeatures rpc query limit rt) = rt"
    with assms(1) SearchFeatures show ?thesis by simp
  next
    assume "\<exists>result. cache rt (cache_key_of query limit) = None \<and> \<not> rpc_failed rpc \<and>
      snd (BackendService_searchFeatures rpc query limit rt) =
        rt\<lparr>cache := (cache rt)(cache_key_of query limit \<mapsto> result),
           ttl_timers := ttl_timers rt @ [(clock rt + CACHE_TTL_MS, cache_key_of query limit)]\<rparr>"
    then obtain result where s: "cache rt (cache_key_of query limit) = None" "\<not> rpc_failed rpc"
      and e: "snd (BackendService_searchFeatures rpc query limit rt) =
        rt\<lparr>cache := (cache rt)(cache_key_of query limit \<mapsto> result),
           ttl_timers := ttl_timers rt @ [(clock rt + CACHE_TTL_MS, cache_key_of query limit)]\<rparr>"
      by blast
    from s assms(3) SearchFeatures have ne: "cache_key_of query limit \<noteq> key" by auto
    with assms(1) show ?thesis
      unfolding SearchFeatures cache_step.simps e covered_until_def by auto
  qed
next
  case (GetDiseaseStats rpc diseaseId)
  from assms(2) have ne: "stats_key diseaseId \<noteq> key" by auto
  from getDiseaseStats_cases[of rpc diseaseId rt] assms(1) ne GetDiseaseStats show ?thesis
    by (auto simp: covered_until_def)
next
  case (GetCachedDiseaseStats rpc diseaseId)
  from getCachedDiseaseStats_cases[of rpc diseaseId rt] assms(1) GetCachedDiseaseStats
  show ?thesis by (auto simp: covered_until_def)
next
  case ClearCache
  then show ?thesis by (simp add: covered_until_def clearCache_def)
next
  case (ClearCacheByPrefix p)
  with assms(1) show ?thesis by (auto simp: covered_until_def clearCacheByPrefix_def)
next
  case ClearQuickPeekCache
  with assms(1) show ?thesis by (simp add: covered_until_def clearQuickPeekCache_def)
next
  case (PassTime dt)
  with assms(1) show ?thesis by (simp add: covered_pass_time)
qed

lemma covered_run:
  "covered_until T key rt \<Longrightarrow> is_search_key key \<Longrightarrow> \<not> stored_anew key es rt \<Longrightarrow>
     covered_until T key (cache_run es rt)"
  unfolding cache_run_def
proof (induction es arbitrary: rt)
  case Nil
  then show ?case by simp
next
  case (Cons e es)
  from Cons.prems have "covered_until T key (cache_step e rt)"
    by (intro covered_step) simp_all
  moreover from Cons.prems have "\<not> stored_anew key es (cache_step e rt)" by simp
  ultimately show ?case using Cons.IH Cons.prems(2) by simp
qed

lemma stored_entry_gone_after_ttl:
  assumes "timers_future rt"
    and "cache rt (cache_key_of query limit) = None" "rpc = Inr a" "error a = None"
    and "\<not> stored_anew (cache_key_of query limit) es
           (snd (BackendService_searchFeatures rpc query limit rt))"
    and "CACHE_TTL_MS \<le> cache_elapsed es"
  shows "cache (cache_run es (snd (BackendService_searchFeatures rpc query limit rt)))
           (cache_key_of query limit) = None"
proof (rule ccontr)
  let ?k = "cache_key_of query limit"
  let ?rt1 = "snd (BackendService_searchFeatures rpc query limit rt)"
  let ?T = "clock rt + CACHE_TTL_MS"
  assume c: "cache (cache_run es ?rt1) ?k \<noteq> None"
  have rt1: "?rt1 = rt\<lparr>cache := (cache rt)(?k \<mapsto> Response (map_option Rows (data a)) None),
         ttl_timers := ttl_timers rt @ [(?T, ?k)]\<rparr>"
    using searchFeatures_store[OF assms(2-4)] by simp
  have "covered_until ?T ?k ?rt1"
    unfolding rt1 covered_until_def by simp
  then have "covered_until ?T ?k (cache_run es ?rt1)"
    using assms(5) by (intro covered_run) simp_all
  with c obtain tm where tm: "tm \<in> set (ttl_timers (cache_run es ?rt1))" "fst tm \<le> ?T"
    by (auto simp: covered_until_def)
  have "timers_future ?rt1"
    using timers_future_step[OF assms(1), of "SearchFeatures rpc query limit"] by simp
  then have "timers_future (cache_run es ?rt1)" by (rule timers_future_run)
  with tm(1) have "clock (cache_run es ?rt1) < fst tm"
    by (auto simp: timers_future_def list_all_iff)
  moreover have "clock (cache_run es ?rt1) = clock rt + cache_elapsed es"
    by (simp add: clock_run rt1)
  ultimately show False using tm(2) assms(6) by simp
qed

lemma quick_peek_step:
  assumes "quickPeekCache rt diseaseId = Some r" "e \<noteq> ClearQuickPeekCache"
  shows "quickPeekCache (cache_step e rt) diseaseId = Some r"
proof (cases e)
  case (SearchFeatures rpc query limit)
  with searchFeatures_snd_cases[of rpc query limit rt] assms(1) show ?thesis by auto
next
  case (GetDiseaseStats rpc d)
  with getDiseaseStats_cases[of rpc d rt] assms(1) show ?thesis by auto
next
  case (GetCachedDiseaseStats rpc d)
  with assms(1) show ?thesis
    by (auto simp: getCachedDiseaseStats_def Let_def split: option.splits)
next
  case ClearQuickPeekCache
  with assms(2) show ?thesis by simp
qed (use assms(1) in \<open>simp_all add: clearCache_def clearCacheByPrefix_def pass_time_fields\<close>)

lemma quick_peek_run:
  "quickPeekCache rt diseaseId = Some r \<Longrightarrow> ClearQuickPeekCache \<notin> set es \<Longrightarrow>
     quickPeekCache (cache_run es rt) diseaseId = Some r"
  unfolding cache_run_def
proof (induction es arbitrary: rt)
  case Nil
  then show ?case by simp
next
  case (Cons e es)
  from Cons.prems have "quickPeekCache (cache_step e rt) diseaseId = Some r"
    by (intro quick_peek_step) auto
  with Cons.IH Cons.prems(2) show ?case by simp
qed

lemma stale_timer_example:
  fixes ok :: "'d list rpc_outcome"
  assumes ok: "ok = Inr (Response (Some []) None)"
  shows "cache (cache_run [SearchFeatures ok query limit, ClearCache, PassTime (CACHE_TTL_MS - 1),
             SearchFeatures ok query limit] (new_runtime 0)) (cache_key_of query limit) =
           Some (Response (Some (Rows [])) None) \<and>
         cache (cache_run [SearchFeatures ok query limit, ClearCache, PassTime (CACHE_TTL_MS - 1),
             SearchFeatures ok query limit, PassTime 1] (new_runtime 0)) (cache_key_of query limit) =
           None"
proof -
  let ?k = "cache_key_of query limit"
  let ?res = "Response (Some (Rows ([]::'d list))) None"
  let ?rt1 = "\<lparr>clock = 0, ttl_timers = [(CACHE_TTL_MS, ?k)], cache = [?k \<mapsto> ?res],
      quickPeekCache = Map.empty\<rparr> :: 'd runtime"
  let ?rt3 = "\<lparr>clock = CACHE_TTL_MS - 1, ttl_timers = [(CACHE_TTL_MS, ?k)], cache = Map.empty,
      quickPeekCache = Map.empty\<rparr> :: 'd runtime"
  let ?rt4 = "\<lparr>clock = CACHE_TTL_MS - 1,
      ttl_timers = [(CACHE_TTL_MS, ?k), (CACHE_TTL_MS - 1 + CACHE_TTL_MS, ?k)],
      cache = [?k \<mapsto> ?res], quickPeekCache = Map.empty\<rparr> :: 'd runtime"
  have s1: "cache_step (SearchFeatures ok query limit) (new_runtime 0) = ?rt1"
    using searchFeatures_store[of "new_runtime 0" query limit ok "Response (Some []) None"] ok
    by (simp add: new_runtime_def)
  have s2: "cache_step ClearCache ?rt1 = ?rt1\<lparr>cache := Map.empty\<rparr>"
    by (simp add: clearCache_def)
  have s3: "cache_step (PassTime (CACHE_TTL_MS - 1)) (?rt1\<lparr>cache := Map.empty\<rparr>) = ?rt3"
    by (simp add: pass_time_def Let_def CACHE_TTL_MS_def)
  have s4: "cache_step (SearchFeatures ok query limit) ?rt3 = ?rt4"
    using searchFeatures_store[of ?rt3 query limit ok "Response (Some []) None"] ok
    by simp
  have s5: "cache (cache_step (PassTime 1) ?rt4) ?k = None"
    by (simp add: pass_time_def Let_def CACHE_TTL_MS_def)
  have r4: "cache_run [SearchFeatures ok query limit, ClearCache, PassTime (CACHE_TTL_MS - 1),
             SearchFeatures ok query limit] (new_runtime 0) = ?rt4"
    by (simp only: cache_run_def fold_simps s1 s2 s3 s4)
  have r5: "cache_run [SearchFeatures ok query limit, ClearCache, PassTime (CACHE_TTL_MS - 1),
             SearchFeatures ok query limit, PassTime 1] (new_runtime 0) =
           cache_step (PassTime 1) ?rt4"
    by (simp only: cache_run_def fold_simps s1 s2 s3 s4)
  show ?thesis
    unfolding r4 r5 s5 by simp
qed

text \<open>
  Claim C6, as amended. \<^verbatim>\<open>BackendService.searchFeatures\<close> stores a result together with
  a timer that deletes its key after the time to live, and a hit returns the entry and
  changes nothing: the timer is not set again and no time of expiry is looked at. So an
  entry that was stored is gone at the latest when the time to live has passed since it
  was stored, whatever calls are made in between, unless the key has been stored anew by
  then; and with no call at all, no search entry of a state that can be reached outlives
  the time to live. The entry can go earlier: \<^verbatim>\<open>clearCache\<close> removes it, and the timer of
  an earlier entry under the same key, still pending, deletes a new entry one
  millisecond after it was stored in the run given. An entry of \<^verbatim>\<open>quickPeekCache\<close> has
  no time to live: through any calls and any lapse of time that do not include
  \<^verbatim>\<open>clearQuickPeekCache\<close> it stays and \<^verbatim>\<open>getCachedDiseaseStats\<close> returns it without asking
  the backend; \<^verbatim>\<open>clearQuickPeekCache\<close> removes it.
\<close>

theorem search_entries_expire_quick_peek_entries_stay:
  assumes "rt = cache_run es0 (new_runtime t0)"
  shows "(CACHE_TTL_MS \<le> dt \<longrightarrow> cache (pass_time dt rt) (search_key query limit) = None) \<and>
     (quickPeekCache rt diseaseId = Some r \<longrightarrow>
        getCachedDiseaseStats rpc diseaseId (pass_time dt rt) = (r, pass_time dt rt)) \<and>
     (cache rt (cache_key_of q l) = None \<and> ok = Inr a \<and> error a = None \<longrightarrow>
        BackendService_searchFeatures ok q l rt =
          (Response (map_option Rows (data a)) None,
           rt\<lparr>cache := (cache rt)(cache_key_of q l \<mapsto> Response (map_option Rows (data a)) None),
              ttl_timers := ttl_timers rt @ [(clock rt + CACHE_TTL_MS, cache_key_of q l)]\<rparr>) \<and>
        (\<not> stored_anew (cache_key_of q l) es (snd (BackendService_searchFeatures ok q l rt)) \<and>
         CACHE_TTL_MS \<le> cache_elapsed es \<longrightarrow>
           cache (cache_run es (snd (BackendService_searchFeatures ok q l rt))) (cache_key_of q l) =
             None)) \<and>
     (cache rt (cache_key_of q' l') = Some hit \<longrightarrow>
        BackendService_searchFeatures rpc q' l' rt = (hit, rt)) \<and>
     cache (clearCache rt) key = None \<and>
     (cache (cache_run [SearchFeatures (Inr (Response (Some []) None)) q l, ClearCache,
          PassTime (CACHE_TTL_MS - 1), SearchFeatures (Inr (Response (Some []) None)) q l]
          (new_runtime 0 :: 'd runtime)) (cache_key_of q l) = Some (Response (Some (Rows [])) None) \<and>
      cache (cache_run [SearchFeatures (Inr (Response (Some []) None)) q l, ClearCache,
          PassTime (CACHE_TTL_MS - 1), SearchFeatures (Inr (Response (Some []) None)) q l,
          PassTime 1] (new_runtime 0 :: 'd runtime)) (cache_key_of q l) = None) \<and>
     (quickPeekCache rt diseaseId = Some r \<and> ClearQuickPeekCache \<notin> set es' \<longrightarrow>
        quickPeekCache (cache_run es' rt) diseaseId = Some r \<and>
        getCachedDiseaseStats rpc diseaseId (cache_run es' rt) = (r, cache_run es' rt)) \<and>
     quickPeekCache (clearQuickPeekCache rt) diseaseId = None"
proof -
  have tc: "timers_cover rt"
    unfolding assms by (rule timers_cover_run[OF timers_cover_new])
  have tf: "timers_future rt"
    unfolding assms by (rule timers_future_run[OF timers_future_new])
  have c1: "CACHE_TTL_MS \<le> dt \<longrightarrow> cache (pass_time dt rt) (search_key query limit) = None"
    using tc by (simp add: search_entries_expire)
  have c2: "quickPeekCache rt diseaseId = Some r \<longrightarrow>
        getCachedDiseaseStats rpc diseaseId (pass_time dt rt) = (r, pass_time dt rt)"
    by (simp add: getCachedDiseaseStats_def pass_time_fields)
  have c3: "cache rt (cache_key_of q l) = None \<and> ok = Inr a \<and> error a = None \<longrightarrow>
        BackendService_searchFeatures ok q l rt =
          (Response (map_option Rows (data a)) None,
           rt\<lparr>cache := (cache rt)(cache_key_of q l \<mapsto> Response (map_option Rows (data a)) None),
              ttl_timers := ttl_timers rt @ [(clock rt + CACHE_TTL_MS, cache_key_of q l)]\<rparr>) \<and>
        (\<not> stored_anew (cache_key_of q l) es (snd (BackendService_searchFeatures ok q l rt)) \<and>
         CACHE_TTL_MS \<le> cache_elapsed es \<longrightarrow>
           cache (cache_run es (snd (BackendService_searchFeatures ok q l rt))) (cache_key_of q l) =
             None)"
  proof (intro impI conjI)
    assume h: "cache rt (cache_key_of q l) = None \<and> ok = Inr a \<and> error a = None"
    then show "BackendService_searchFeatures ok q l rt =
          (Response (map_option Rows (data a)) None,
           rt\<lparr>cache := (cache rt)(cache_key_of q l \<mapsto> Response (map_option Rows (data a)) None),
              ttl_timers := ttl_timers rt @ [(clock rt + CACHE_TTL_MS, cache_key_of q l)]\<rparr>)"
      by (intro searchFeatures_store) simp_all
    assume g: "\<not> stored_anew (cache_key_of q l) es (snd (BackendService_searchFeatures ok q l rt)) \<and>
         CACHE_TTL_MS \<le> cache_elapsed es"
    from h g show "cache (cache_run es (snd (BackendService_searchFeatures ok q l rt)))
        (cache_key_of q l) = None"
      by (intro stored_entry_gone_after_ttl[OF tf, of q l ok a es]) simp_all
  qed
  have c4: "cache rt (cache_key_of q' l') = Some hit \<longrightarrow>
        BackendService_searchFeatures rpc q' l' rt = (hit, rt)"
    by (simp add: searchFeatures_hit)
  have c5: "cache (clearCache rt) key = None" by (simp add: clearCache_def)
  note c6 = stale_timer_example[OF refl, of q l, where 'd = 'd]
  have c7: "quickPeekCache rt diseaseId = Some r \<and> ClearQuickPeekCache \<notin> set es' \<longrightarrow>
        quickPeekCache (cache_run es' rt) diseaseId = Some r \<and>
        getCachedDiseaseStats rpc diseaseId (cache_run es' rt) = (r, cache_run es' rt)"
  proof (intro impI)
    assume "quickPeekCache rt diseaseId = Some r \<and> ClearQuickPeekCache \<notin> set es'"
    then have "quickPeekCache (cache_run es' rt) diseaseId = Some r"
      by (intro quick_peek_run) simp_all
    then show "quickPeekCache (cache_run es' rt) diseaseId = Some r \<and>
        getCachedDiseaseStats rpc diseaseId (cache_run es' rt) = (r, cache_run es' rt)"
      by (simp add: getCachedDiseaseStats_def)
  qed
  have c8: "quickPeekCache (clearQuickPeekCache rt) diseaseId = None"
    by (simp add: clearQuickPeekCache_def)
  from c1 c2 c3 c4 c5 c6 c7 c8 show ?thesis by blast
qed

text \<open>
  The timers delete search entries only, so an entry of \<^verbatim>\<open>BackendService.getDiseaseStats\<close>
  stays until the cache is cleared.
\<close>

lemma backend_stats_entry_served:
  assumes "rt = cache_run es (new_runtime t0)" "cache rt (stats_key diseaseId) = Some r"
  shows "BackendService_getDiseaseStats rpc diseaseId (pass_time dt rt) = (r, pass_time dt rt)"
proof -
  have tc: "timers_cover rt"
    unfolding assms(1) by (rule timers_cover_run[OF timers_cover_new])
  from assms(2) stats_entries_stay[OF tc, of dt diseaseId] show ?thesis
    by (simp add: BackendService_getDiseaseStats_def)
qed

lemma no_error_new: "no_error_cached (new_runtime t0)"
  by (simp add: no_error_cached_def new_runtime_def)

lemma no_error_step: "no_error_cached rt \<Longrightarrow> no_error_cached (cache_step e rt)"
proof (cases e)
  case (SearchFeatures rpc query limit)
  assume "no_error_cached rt"
  with SearchFeatures searchFeatures_cases[of rpc query limit rt] show ?thesis
    by (auto simp: no_error_cached_def split: if_splits)
next
  case (GetDiseaseStats rpc diseaseId)
  assume "no_error_cached rt"
  with GetDiseaseStats getDiseaseStats_cases[of rpc diseaseId rt] show ?thesis
    by (auto simp: no_error_cached_def split: if_splits)
next
  case (GetCachedDiseaseStats rpc diseaseId)
  assume "no_error_cached rt"
  with GetCachedDiseaseStats getCachedDiseaseStats_cases[of rpc diseaseId rt] show ?thesis
    by (auto simp: no_error_cached_def split: if_splits)
next
  case ClearCache
  assume "no_error_cached rt"
  with ClearCache show ?thesis by (simp add: no_error_cached_def clearCache_def)
next
  case (ClearCacheByPrefix p)
  assume "no_error_cached rt"
  with ClearCacheByPrefix show ?thesis by (simp add: no_error_cached_def clearCacheByPrefix_def)
next
  case ClearQuickPeekCache
  assume "no_error_cached rt"
  with ClearQuickPeekCache show ?thesis by (simp add: no_error_cached_def clearQuickPeekCache_def)
next
  case (PassTime dt)
  assume "no_error_cached rt"
  with PassTime show ?thesis
    by (auto simp: no_error_cached_def pass_time_fields split: if_splits)
qed

lemma no_error_run: "no_error_cached rt \<Longrightarrow> no_error_cached (cache_run es rt)"
  unfolding cache_run_def by (induction es arbitrary: rt) (simp_all add: no_error_step)

lemma failed_lookup_keeps_state:
  assumes "rpc_failed rpc"
  shows "snd (BackendService_searchFeatures rpc query limit rt) = rt"
    and "snd (BackendService_getDiseaseStats rpc diseaseId rt) = rt"
    and "snd (getCachedDiseaseStats rpc diseaseId rt) = rt"
  using assms
  by (auto simp: rpc_failed_def BackendService_searchFeatures_def
        BackendService_getDiseaseStats_def getCachedDiseaseStats_def getDiseaseStats_def Let_def
      split: option.splits sum.splits)

text \<open>
  Claim C10. When the lookup fails, each of \<^verbatim>\<open>BackendService.searchFeatures\<close>,
  \<^verbatim>\<open>BackendService.getDiseaseStats\<close> and \<^verbatim>\<open>getCachedDiseaseStats\<close> leaves the state as it
  was. In every state that can be reached, no result held by either cache carries an
  error.
\<close>

theorem failed_lookup_not_cached:
  "(rpc_failed rpc \<longrightarrow>
      snd (BackendService_searchFeatures rpc query limit rt) = rt \<and>
      snd (BackendService_getDiseaseStats rpc diseaseId rt) = rt \<and>
      snd (getCachedDiseaseStats rpc diseaseId rt) = rt) \<and>
   (cache (cache_run es (new_runtime t0)) key = Some r \<longrightarrow> error r = None) \<and>
   (quickPeekCache (cache_run es (new_runtime t0)) k = Some r \<longrightarrow> error r = None)"
proof -
  have "no_error_cached (cache_run es (new_runtime t0))"
    by (rule no_error_run[OF no_error_new])
  then show ?thesis
    by (auto simp: no_error_cached_def failed_lookup_keeps_state)
qed


lemma example_runtime_eval:
  "example_runtime =
     \<lparr>clock = 0,
      ttl_timers = [(CACHE_TTL_MS, search_key (JStr (js ''dy'')) (JNum MAX_SEARCH_RESULTS))],
      cache = [stats_key (JStr (js ''d1'')) \<mapsto> Response (Some (Row 7)) None,
               search_key (JStr (js ''dy'')) (JNum MAX_SEARCH_RESULTS) \<mapsto>
                 Response (Some (Rows [1, 2, 3])) None],
      quickPeekCache = [JStr (js ''d1'') \<mapsto> Response (Some (Row 7)) None]\<rparr>"
  by (simp add: example_runtime_def example_events_def cache_run_def new_runtime_def
        getCachedDiseaseStats_def getDiseaseStats_def BackendService_getDiseaseStats_def
        BackendService_searchFeatures_def stats_answer_def search_answer_def first_row_def
        Let_def)

lemma example_later:
  "pass_time (1000 * CACHE_TTL_MS) example_runtime =
     \<lparr>clock = 1000 * CACHE_TTL_MS, ttl_timers = [],
      cache = [stats_key (JStr (js ''d1'')) \<mapsto> Response (Some (Row 7)) None],
      quickPeekCache = [JStr (js ''d1'') \<mapsto> Response (Some (Row 7)) None]\<rparr>"
  by (simp add: example_runtime_eval pass_time_def Let_def CACHE_TTL_MS_def fun_upd_twist)

text \<open>
  An entry of \<^verbatim>\<open>quickPeekCache\<close> stored at time 0 is still served a thousand times the
  time to live later.
\<close>

theorem quick_peek_entry_never_expires_counterexample:
  "clock example_runtime + CACHE_TTL_MS \<le> clock (pass_time (1000 * CACHE_TTL_MS) example_runtime) \<and>
   fst (getCachedDiseaseStats backend_down (JStr (js ''d1''))
          (pass_time (1000 * CACHE_TTL_MS) example_runtime)) = Response (Some (Row 7)) None"
proof -
  have "clock example_runtime + CACHE_TTL_MS \<le> clock (pass_time (1000 * CACHE_TTL_MS) example_runtime)"
    by (simp add: example_later) (simp add: example_runtime_eval)
  then show ?thesis
    by (simp add: example_later getCachedDiseaseStats_def)
qed

lemma example_miss:
  "cache example_runtime (cache_key_of (JStr (js ''mur'')) JUndefined) = None"
proof -
  have "search_key (JStr (js ''mur'')) (JNum MAX_SEARCH_RESULTS) \<noteq>
      search_key (JStr (js ''dy'')) (JNum MAX_SEARCH_RESULTS)"
    by (simp add: search_key_def js_def)
  then show ?thesis
    by (simp add: example_runtime_eval cache_key_of_def)
qed

theorem search_entries_expire_quick_peek_entries_stay_witness:
  "example_runtime = cache_run example_events (new_runtime 0) \<and>
   CACHE_TTL_MS \<le> CACHE_TTL_MS \<and>
   quickPeekCache example_runtime (JStr (js ''d1'')) = Some (Response (Some (Row 7)) None) \<and>
   cache example_runtime (cache_key_of (JStr (js ''mur'')) JUndefined) = None \<and>
   search_answer = Inr (Response (Some [1, 2, 3]) None) \<and>
   error (Response (Some [1, 2, 3 :: nat]) None) = None \<and>
   \<not> stored_anew (cache_key_of (JStr (js ''mur'')) JUndefined)
       [SearchFeatures backend_down (JStr (js ''mur'')) JUndefined, PassTime CACHE_TTL_MS]
       (snd (BackendService_searchFeatures search_answer (JStr (js ''mur'')) JUndefined
          example_runtime)) \<and>
   CACHE_TTL_MS \<le> cache_elapsed
       [SearchFeatures backend_down (JStr (js ''mur'')) JUndefined, PassTime CACHE_TTL_MS] \<and>
   cache example_runtime (cache_key_of (JStr (js ''dy'')) JUndefined) =
     Some (Response (Some (Rows [1, 2, 3])) None) \<and>
   ClearQuickPeekCache \<notin> set [ClearCache, PassTime (1000 * CACHE_TTL_MS),
       GetCachedDiseaseStats backend_down (JStr (js ''d2''))] \<and>
   cache (pass_time CACHE_TTL_MS example_runtime)
     (search_key (JStr (js ''dy'')) (JNum MAX_SEARCH_RESULTS)) = None \<and>
   cache (cache_run
       [SearchFeatures backend_down (JStr (js ''mur'')) JUndefined, PassTime CACHE_TTL_MS]
       (snd (BackendService_searchFeatures search_answer (JStr (js ''mur'')) JUndefined
          example_runtime)))
     (cache_key_of (JStr (js ''mur'')) JUndefined) = None \<and>
   BackendService_searchFeatures backend_down (JStr (js ''dy'')) JUndefined example_runtime =
     (Response (Some (Rows [1, 2, 3])) None, example_runtime) \<and>
   quickPeekCache (cache_run [ClearCache, PassTime (1000 * CACHE_TTL_MS),
       GetCachedDiseaseStats backend_down (JStr (js ''d2''))] example_runtime) (JStr (js ''d1'')) =
     Some (Response (Some (Row 7)) None) \<and>
   fst (getCachedDiseaseStats backend_down (JStr (js ''d1''))
       (cache_run [ClearCache, PassTime (1000 * CACHE_TTL_MS),
          GetCachedDiseaseStats backend_down (JStr (js ''d2''))] example_runtime)) =
     Response (Some (Row 7)) None \<and>
   quickPeekCache (clearQuickPeekCache example_runtime) (JStr (js ''d1'')) = None"
proof -
  let ?es = "[SearchFeatures backend_down (JStr (js ''mur'')) JUndefined, PassTime CACHE_TTL_MS]
    :: nat cache_event list"
  let ?es' = "[ClearCache, PassTime (1000 * CACHE_TTL_MS),
       GetCachedDiseaseStats backend_down (JStr (js ''d2''))] :: nat cache_event list"
  have h1: "example_runtime = cache_run example_events (new_runtime 0)"
    by (rule example_runtime_def)
  have h2: "CACHE_TTL_MS \<le> CACHE_TTL_MS" by simp
  have h3: "quickPeekCache example_runtime (JStr (js ''d1'')) =
      Some (Response (Some (Row 7)) None)"
    by (simp add: example_runtime_eval)
  note h4 = example_miss
  have h5: "search_answer = Inr (Response (Some [1, 2, 3]) None)"
    by (simp add: search_answer_def)
  have h6: "error (Response (Some [1, 2, 3 :: nat]) None) = None" by simp
  have h7: "\<not> stored_anew (cache_key_of (JStr (js ''mur'')) JUndefined) ?es
       (snd (BackendService_searchFeatures search_answer (JStr (js ''mur'')) JUndefined
          example_runtime))"
    by (simp add: rpc_failed_def backend_down_def)
  have h8: "CACHE_TTL_MS \<le> cache_elapsed ?es" by simp
  have h9: "cache example_runtime (cache_key_of (JStr (js ''dy'')) JUndefined) =
     Some (Response (Some (Rows [1, 2, 3])) None)"
    by (simp add: example_runtime_eval cache_key_of_def)
  have h10: "ClearQuickPeekCache \<notin> set ?es'" by simp
  note t = search_entries_expire_quick_peek_entries_stay[OF h1, of CACHE_TTL_MS "JStr (js ''dy'')" "JNum MAX_SEARCH_RESULTS"
      "JStr (js ''d1'')" "Response (Some (Row 7)) None" backend_down
      "JStr (js ''mur'')" JUndefined search_answer "Response (Some [1, 2, 3]) None" ?es
      "JStr (js ''dy'')" JUndefined "Response (Some (Rows [1, 2, 3])) None"
      "stats_key (JStr (js ''d1''))" ?es']
  from t h2 have a: "cache (pass_time CACHE_TTL_MS example_runtime)
     (search_key (JStr (js ''dy'')) (JNum MAX_SEARCH_RESULTS)) = None"
    by blast
  from t h4 h5 h6 h7 h8 have b: "cache (cache_run ?es
       (snd (BackendService_searchFeatures search_answer (JStr (js ''mur'')) JUndefined
          example_runtime)))
     (cache_key_of (JStr (js ''mur'')) JUndefined) = None"
    by blast
  from t h9 have c: "BackendService_searchFeatures backend_down (JStr (js ''dy'')) JUndefined
      example_runtime = (Response (Some (Rows [1, 2, 3])) None, example_runtime)"
    by blast
  from t h3 h10 have d: "quickPeekCache (cache_run ?es' example_runtime) (JStr (js ''d1'')) =
     Some (Response (Some (Row 7)) None)"
    and e: "getCachedDiseaseStats backend_down (JStr (js ''d1'')) (cache_run ?es' example_runtime) =
      (Response (Some (Row 7)) None, cache_run ?es' example_runtime)"
    by blast+
  from e have e': "fst (getCachedDiseaseStats backend_down (JStr (js ''d1''))
      (cache_run ?es' example_runtime)) = Response (Some (Row 7)) None"
    by simp
  from t have f: "quickPeekCache (clearQuickPeekCache example_runtime) (JStr (js ''d1'')) = None"
    by blast
  from h1 h2 h3 h4 h5 h6 h7 h8 h9 h10 a b c d e' f show ?thesis by blast
qed

theorem failed_lookup_not_cached_witness:
  "rpc_failed backend_down \<and>
   snd (BackendService_searchFeatures backend_down (JStr (js ''mur'')) JUndefined example_runtime) =
     example_runtime \<and>
   snd (BackendService_getDiseaseStats backend_down (JStr (js ''d2'')) example_runtime) =
     example_runtime \<and>
   snd (getCachedDiseaseStats backend_down (JStr (js ''d2'')) example_runtime) = example_runtime \<and>
   cache (cache_run example_events (new_runtime 0)) (stats_key (JStr (js ''d1''))) =
     Some (Response (Some (Row 7)) None) \<and>
   quickPeekCache (cache_run example_events (new_runtime 0)) (JStr (js ''d1'')) =
     Some (Response (Some (Row 7)) None) \<and>
   error (Response (Some (Row (7::nat))) None) = None"
proof -
  have h1: "rpc_failed backend_down" by (simp add: rpc_failed_def backend_down_def)
  have h2: "cache (cache_run example_events (new_runtime 0)) (stats_key (JStr (js ''d1''))) =
     Some (Response (Some (Row 7)) None)"
    by (simp add: example_runtime_eval[unfolded example_runtime_def])
  have h3: "quickPeekCache (cache_run example_events (new_runtime 0)) (JStr (js ''d1'')) =
     Some (Response (Some (Row 7)) None)"
    by (simp add: example_runtime_eval[unfolded example_runtime_def])
  from failed_lookup_not_cached[of backend_down "JStr (js ''mur'')" JUndefined example_runtime
      "JStr (js ''d2'')" example_events 0 "stats_key (JStr (js ''d1''))"
      "Response (Some (Row 7)) None" "JStr (js ''d1'')"] h1 h2 h3
  show ?thesis by blast
qed

end
